theory Spec2Isabelle
  imports Complex_Main
begin

section \<open>The CPU backend of the needle array library\<close>

text \<open>
  A shallow embedding of \<^verbatim>\<open>src/ndarray_backend_cpu.cc\<close>.

  Conventions of the embedding.
  \<^item> \<^verbatim>\<open>AlignedArray\<close> is a record of the raw storage \<open>ptr\<close> and the element count
    \<open>size_a\<close> (the field \<^verbatim>\<open>size\<close>).  The storage is read and written through a raw
    pointer with no bounds check, so it is a total function from element index to value:
    the cells below \<open>size_a\<close> are the buffer, and an access past them is whatever lies
    there.  Distinct array arguments are distinct storages (the callers never alias them).
  \<^item> \<^verbatim>\<open>size_t\<close> counters are natural numbers.  Where a \<^verbatim>\<open>size_t\<close> receives a
    negative summand (the linear position of the strided traversal) and where the code
    computes in \<^verbatim>\<open>uint32_t\<close> (the naive matrix product) the reduction modulo
    \<open>2^64\<close> resp. \<open>2^32\<close> is written out.
  \<^item> \<^verbatim>\<open>int32_t\<close> values are integers; a signed overflow is undefined in C++ and is
    not given a meaning here.
  \<^item> \<^verbatim>\<open>scalar_t\<close> is a type parameter with the operations the kernel uses; the
    functions of \<^verbatim>\<open><cmath>\<close> are parameters.  Grid sampling and the tiled product
    are stated over exact arithmetic.
  \<^item> A counted \<^verbatim>\<open>for\<close> loop is a \<open>foldl\<close> over the list of the values its counter
    takes; the two loops that have no bound are partial functions.
\<close>

subsection \<open>Aligned arrays\<close>

record 'a AlignedArray =
  ptr :: "nat \<Rightarrow> 'a"
  size_a :: nat

text \<open>The assignment \<^verbatim>\<open>out->ptr[i] = v\<close>.\<close>

definition store :: "'a AlignedArray \<Rightarrow> nat \<Rightarrow> 'a \<Rightarrow> 'a AlignedArray" where
  "store out i v = out\<lparr>ptr := (ptr out)(i := v)\<rparr>"

text \<open>
  Buffers for the worked examples: \<open>from_list d xs\<close> holds \<open>xs\<close> and the value \<open>d\<close> past
  its end; \<open>to_list\<close> reads the \<open>size_a\<close> cells of a buffer back.
\<close>

definition from_list :: "'a \<Rightarrow> 'a list \<Rightarrow> 'a AlignedArray" where
  "from_list d xs = \<lparr>ptr = (\<lambda>i. if i < length xs then xs ! i else d), size_a = length xs\<rparr>"

definition to_list :: "'a AlignedArray \<Rightarrow> 'a list" where
  "to_list a = map (ptr a) [0..<size_a a]"

text \<open>
  The constructor of \<^verbatim>\<open>AlignedArray\<close>.  \<^verbatim>\<open>posix_memalign\<close> is the platform's: it is a
  parameter that, for an alignment and a number of bytes, gives the address of the block
  or fails (a return value other than \<open>0\<close>).  The number of bytes asked for is the product
  \<^verbatim>\<open>size * ELEM_SIZE\<close> of two \<^verbatim>\<open>size_t\<close>, which wraps at \<open>2^64\<close>.  The result records
  the address, the bytes that were asked for, and the field \<^verbatim>\<open>size\<close>.
\<close>

definition ALIGNMENT :: nat where
  "ALIGNMENT = 256"

definition ELEM_SIZE :: nat where
  "ELEM_SIZE = 4"

datatype error = bad_alloc | signed_overflow

record allocation =
  address :: nat
  bytes :: nat
  size_f :: nat

definition AlignedArray_new :: "(nat \<Rightarrow> nat \<Rightarrow> nat option) \<Rightarrow> nat \<Rightarrow> error + allocation" where
  "AlignedArray_new posix_memalign size_arg =
     (case posix_memalign ALIGNMENT ((size_arg * ELEM_SIZE) mod 2 ^ 64) of
        None \<Rightarrow> Inl bad_alloc
      | Some p \<Rightarrow> Inr \<lparr>address = p, bytes = (size_arg * ELEM_SIZE) mod 2 ^ 64, size_f = size_arg\<rparr>)"

text \<open>A platform that has no memory left: only a request for no bytes succeeds.\<close>

definition zero_bytes :: "nat \<Rightarrow> nat \<Rightarrow> nat option" where
  "zero_bytes alignment n = (if n = 0 then Some 0 else None)"

text \<open>
  \<^verbatim>\<open>Fill\<close>.  Its counter is an \<^verbatim>\<open>int\<close> that is compared with the \<^verbatim>\<open>size_t\<close> size.  For a
  size of at most \<^verbatim>\<open>INT_MAX\<close> it counts through all the cells.  For a greater size the
  increment \<^verbatim>\<open>i++\<close> at \<^verbatim>\<open>i = INT_MAX\<close> overflows, which is undefined: the model stops
  there with the error \<open>signed_overflow\<close>.
\<close>

definition INT_MAX :: nat where
  "INT_MAX = 2 ^ 31 - 1"

definition Fill :: "'a AlignedArray \<Rightarrow> 'a \<Rightarrow> error + 'a AlignedArray" where
  "Fill out val =
     (if size_a out \<le> INT_MAX
      then Inr (foldl (\<lambda>out i. store out i val) out [0..<size_a out])
      else Inl signed_overflow)"

subsection \<open>Elementwise, scalar and unary operators\<close>

definition EwiseAdd :: "('a::plus) AlignedArray \<Rightarrow> 'a AlignedArray \<Rightarrow> 'a AlignedArray \<Rightarrow> 'a AlignedArray" where
  "EwiseAdd a b out = foldl (\<lambda>out i. store out i (ptr a i + ptr b i)) out [0..<size_a a]"

definition ScalarAdd :: "('a::plus) AlignedArray \<Rightarrow> 'a \<Rightarrow> 'a AlignedArray \<Rightarrow> 'a AlignedArray" where
  "ScalarAdd a val out = foldl (\<lambda>out i. store out i (ptr a i + val)) out [0..<size_a a]"

text \<open>The three macros, with the operator \<^verbatim>\<open>opr\<close> as an argument.\<close>

definition DEFINE_EWISE_FUNC ::
  "('a \<Rightarrow> 'a \<Rightarrow> 'a) \<Rightarrow> 'a AlignedArray \<Rightarrow> 'a AlignedArray \<Rightarrow> 'a AlignedArray \<Rightarrow> 'a AlignedArray" where
  "DEFINE_EWISE_FUNC opr a b out =
     foldl (\<lambda>out i. store out i (opr (ptr a i) (ptr b i))) out [0..<size_a a]"

definition DEFINE_SCALAR_FUNC ::
  "('a \<Rightarrow> 'a \<Rightarrow> 'a) \<Rightarrow> 'a AlignedArray \<Rightarrow> 'a \<Rightarrow> 'a AlignedArray \<Rightarrow> 'a AlignedArray" where
  "DEFINE_SCALAR_FUNC opr a val out =
     foldl (\<lambda>out i. store out i (opr (ptr a i) val)) out [0..<size_a a]"

definition DEFINE_UNARY_FUNC ::
  "('a \<Rightarrow> 'a) \<Rightarrow> 'a AlignedArray \<Rightarrow> 'a AlignedArray \<Rightarrow> 'a AlignedArray" where
  "DEFINE_UNARY_FUNC opr a out =
     foldl (\<lambda>out i. store out i (opr (ptr a i))) out [0..<size_a a]"

text \<open>
  The operators handed to the macros.  \<^verbatim>\<open>std::max(x, y)\<close> is \<^verbatim>\<open>(x < y) ? y : x\<close>;
  \<^verbatim>\<open>std::equal_to\<close> and \<^verbatim>\<open>std::greater_equal\<close> return a \<^verbatim>\<open>bool\<close> that the
  assignment converts to \<open>1\<close> or \<open>0\<close>.
\<close>

definition std_max :: "('a::ord) \<Rightarrow> 'a \<Rightarrow> 'a" where
  "std_max x y = (if x < y then y else x)"

definition equal_to :: "'a \<Rightarrow> 'a \<Rightarrow> ('a::{zero,one})" where
  "equal_to x y = (if x = y then 1 else 0)"

definition greater_equal :: "'a \<Rightarrow> 'a \<Rightarrow> ('a::{zero,one,ord})" where
  "greater_equal x y = (if x \<ge> y then 1 else 0)"

definition EwiseMul :: "('a::times) AlignedArray \<Rightarrow> 'a AlignedArray \<Rightarrow> 'a AlignedArray \<Rightarrow> 'a AlignedArray" where
  "EwiseMul = DEFINE_EWISE_FUNC (\<lambda>x y. x * y)"

definition ScalarMul :: "('a::times) AlignedArray \<Rightarrow> 'a \<Rightarrow> 'a AlignedArray \<Rightarrow> 'a AlignedArray" where
  "ScalarMul = DEFINE_SCALAR_FUNC (\<lambda>x y. x * y)"

definition EwiseDiv :: "('a::divide) AlignedArray \<Rightarrow> 'a AlignedArray \<Rightarrow> 'a AlignedArray \<Rightarrow> 'a AlignedArray" where
  "EwiseDiv = DEFINE_EWISE_FUNC (\<lambda>x y. x div y)"

definition ScalarDiv :: "('a::divide) AlignedArray \<Rightarrow> 'a \<Rightarrow> 'a AlignedArray \<Rightarrow> 'a AlignedArray" where
  "ScalarDiv = DEFINE_SCALAR_FUNC (\<lambda>x y. x div y)"

definition ScalarPower :: "('a \<Rightarrow> 'a \<Rightarrow> 'a) \<Rightarrow> 'a AlignedArray \<Rightarrow> 'a \<Rightarrow> 'a AlignedArray \<Rightarrow> 'a AlignedArray" where
  "ScalarPower std_pow = DEFINE_SCALAR_FUNC std_pow"

definition EwiseMaximum :: "('a::ord) AlignedArray \<Rightarrow> 'a AlignedArray \<Rightarrow> 'a AlignedArray \<Rightarrow> 'a AlignedArray" where
  "EwiseMaximum = DEFINE_EWISE_FUNC std_max"

definition ScalarMaximum :: "('a::ord) AlignedArray \<Rightarrow> 'a \<Rightarrow> 'a AlignedArray \<Rightarrow> 'a AlignedArray" where
  "ScalarMaximum = DEFINE_SCALAR_FUNC std_max"

definition EwiseEq :: "('a::{zero,one}) AlignedArray \<Rightarrow> 'a AlignedArray \<Rightarrow> 'a AlignedArray \<Rightarrow> 'a AlignedArray" where
  "EwiseEq = DEFINE_EWISE_FUNC equal_to"

definition ScalarEq :: "('a::{zero,one}) AlignedArray \<Rightarrow> 'a \<Rightarrow> 'a AlignedArray \<Rightarrow> 'a AlignedArray" where
  "ScalarEq = DEFINE_SCALAR_FUNC equal_to"

definition EwiseGe :: "('a::{zero,one,ord}) AlignedArray \<Rightarrow> 'a AlignedArray \<Rightarrow> 'a AlignedArray \<Rightarrow> 'a AlignedArray" where
  "EwiseGe = DEFINE_EWISE_FUNC greater_equal"

definition ScalarGe :: "('a::{zero,one,ord}) AlignedArray \<Rightarrow> 'a \<Rightarrow> 'a AlignedArray \<Rightarrow> 'a AlignedArray" where
  "ScalarGe = DEFINE_SCALAR_FUNC greater_equal"

definition EwiseLog :: "('a \<Rightarrow> 'a) \<Rightarrow> 'a AlignedArray \<Rightarrow> 'a AlignedArray \<Rightarrow> 'a AlignedArray" where
  "EwiseLog std_log = DEFINE_UNARY_FUNC std_log"

definition EwiseExp :: "('a \<Rightarrow> 'a) \<Rightarrow> 'a AlignedArray \<Rightarrow> 'a AlignedArray \<Rightarrow> 'a AlignedArray" where
  "EwiseExp std_exp = DEFINE_UNARY_FUNC std_exp"

definition EwiseTanh :: "('a \<Rightarrow> 'a) \<Rightarrow> 'a AlignedArray \<Rightarrow> 'a AlignedArray \<Rightarrow> 'a AlignedArray" where
  "EwiseTanh std_tanh = DEFINE_UNARY_FUNC std_tanh"

subsection \<open>Reductions\<close>

definition ReduceMax :: "('a::ord) AlignedArray \<Rightarrow> 'a AlignedArray \<Rightarrow> nat \<Rightarrow> 'a AlignedArray" where
  "ReduceMax a out reduce_size =
     foldl (\<lambda>out i.
        let max_val = foldl (\<lambda>max_val j. std_max max_val (ptr a (i * reduce_size + j)))
                        (ptr a (i * reduce_size)) [1..<reduce_size]
        in store out i max_val) out [0..<size_a out]"

definition ReduceSum :: "('a::{zero,plus}) AlignedArray \<Rightarrow> 'a AlignedArray \<Rightarrow> nat \<Rightarrow> 'a AlignedArray" where
  "ReduceSum a out reduce_size =
     foldl (\<lambda>out i.
        let sum_val = foldl (\<lambda>sum_val j. sum_val + ptr a (i * reduce_size + j)) 0 [0..<reduce_size]
        in store out i sum_val) out [0..<size_a out]"

text \<open>The block \<open>a[i * reduce_size .. i * reduce_size + reduce_size - 1]\<close>, left to right.\<close>

definition block :: "'a AlignedArray \<Rightarrow> nat \<Rightarrow> nat \<Rightarrow> 'a list" where
  "block a i reduce_size = map (ptr a) [i * reduce_size..<i * reduce_size + reduce_size]"

subsection \<open>The strided traversal\<close>

text \<open>
  The index vector, the shape and the strides are vectors of \<^verbatim>\<open>int32_t\<close>; the offset and the
  linear position are \<^verbatim>\<open>size_t\<close>.  The product \<^verbatim>\<open>index[i] * strides[i]\<close> is computed
  in \<^verbatim>\<open>int\<close>, where an overflow is undefined: the model stops there with the error
  \<open>signed_overflow\<close>.  A product that fits is converted to \<^verbatim>\<open>size_t\<close> (that is, taken
  modulo \<open>2^64\<close>) by the compound assignment \<^verbatim>\<open>pos += ...\<close>, whose sum wraps at \<open>2^64\<close>
  as well.
\<close>

definition int32_t :: "int \<Rightarrow> bool" where
  "int32_t z \<longleftrightarrow> - (2 ^ 31) \<le> z \<and> z < 2 ^ 31"

definition to_size_t :: "int \<Rightarrow> nat" where
  "to_size_t z = nat (z mod 2 ^ 64)"

definition position :: "nat \<Rightarrow> int list \<Rightarrow> int list \<Rightarrow> nat \<Rightarrow> error + nat" where
  "position n_dim index strides offset =
     foldl (\<lambda>pos i.
        case pos of
          Inl e \<Rightarrow> Inl e
        | Inr pos \<Rightarrow>
            if int32_t (index ! i * strides ! i)
            then Inr ((pos + to_size_t (index ! i * strides ! i)) mod 2 ^ 64)
            else Inl signed_overflow)
       (Inr offset) [0..<n_dim]"

text \<open>
  The carry loop \<^verbatim>\<open>for (int dim = n_dim - 1; dim >= 0; --dim)\<close> of \<^verbatim>\<open>Compact\<close> and
  \<^verbatim>\<open>EwiseSetitem\<close>.  The first argument is \<open>dim + 1\<close>, so \<open>0\<close> is the exit of the loop at
  \<open>dim < 0\<close>.  The result says whether the loop executed \<^verbatim>\<open>return\<close>, and gives the index
  vector it leaves.  (An index is incremented only while it is below an extent, which is
  an \<^verbatim>\<open>int32_t\<close>, so this increment cannot overflow.)
\<close>

fun increment :: "nat \<Rightarrow> int list \<Rightarrow> int list \<Rightarrow> bool \<times> int list" where
  "increment 0 index shape = (False, index)"
| "increment (Suc dim_i) index shape =
     (let index = index[dim_i := index ! dim_i + 1] in
      if index ! dim_i < shape ! dim_i then (False, index)
      else let index = index[dim_i := 0] in
        if dim_i = 0 then (True, index) else increment dim_i index shape)"

text \<open>
  The outer loop \<^verbatim>\<open>for (size_t cnt = 0;; ++cnt)\<close> has no bound: it ends only by the
  \<^verbatim>\<open>return\<close> of the carry loop.  It is a partial function whose value \<open>None\<close> is a run
  that never returns; a run that ends gives either the error it stopped with or the
  destination and the last value of \<open>cnt\<close>, so \<open>cnt + 1\<close> elements were visited.
\<close>

partial_function (option) Compact_loop ::
  "'a AlignedArray \<Rightarrow> int list \<Rightarrow> int list \<Rightarrow> nat \<Rightarrow> int list \<Rightarrow> 'a AlignedArray \<Rightarrow> nat
     \<Rightarrow> (error + 'a AlignedArray \<times> nat) option" where
  "Compact_loop a shape strides offset index out cnt =
     (case position (length shape) index strides offset of
        Inl e \<Rightarrow> Some (Inl e)
      | Inr pos \<Rightarrow>
          (let out = store out cnt (ptr a pos);
               (returned, index) = increment (length shape) index shape
           in if returned then Some (Inr (out, cnt))
              else Compact_loop a shape strides offset index out (cnt + 1)))"

definition Compact ::
  "'a AlignedArray \<Rightarrow> 'a AlignedArray \<Rightarrow> int list \<Rightarrow> int list \<Rightarrow> nat
     \<Rightarrow> (error + 'a AlignedArray) option" where
  "Compact a out shape strides offset =
     map_option (map_sum id fst)
       (Compact_loop a shape strides offset (replicate (length shape) 0) out 0)"

partial_function (option) EwiseSetitem_loop ::
  "'a AlignedArray \<Rightarrow> int list \<Rightarrow> int list \<Rightarrow> nat \<Rightarrow> int list \<Rightarrow> 'a AlignedArray \<Rightarrow> nat
     \<Rightarrow> (error + 'a AlignedArray \<times> nat) option" where
  "EwiseSetitem_loop a shape strides offset index out cnt =
     (case position (length shape) index strides offset of
        Inl e \<Rightarrow> Some (Inl e)
      | Inr pos \<Rightarrow>
          (let out = store out pos (ptr a cnt);
               (returned, index) = increment (length shape) index shape
           in if returned then Some (Inr (out, cnt))
              else EwiseSetitem_loop a shape strides offset index out (cnt + 1)))"

definition EwiseSetitem ::
  "'a AlignedArray \<Rightarrow> 'a AlignedArray \<Rightarrow> int list \<Rightarrow> int list \<Rightarrow> nat
     \<Rightarrow> (error + 'a AlignedArray) option" where
  "EwiseSetitem a out shape strides offset =
     map_option (map_sum id fst)
       (EwiseSetitem_loop a shape strides offset (replicate (length shape) 0) out 0)"

text \<open>
  \<^verbatim>\<open>ScalarSetitem\<close> counts to its argument \<^verbatim>\<open>size\<close>, and its carry loop has no
  \<^verbatim>\<open>return\<close>.  The state of its loop is the index vector and the destination, or the
  error the loop stopped with.
\<close>

fun advance :: "nat \<Rightarrow> int list \<Rightarrow> int list \<Rightarrow> int list" where
  "advance 0 index shape = index"
| "advance (Suc dim_i) index shape =
     (let index = index[dim_i := index ! dim_i + 1] in
      if index ! dim_i < shape ! dim_i then index
      else advance dim_i (index[dim_i := 0]) shape)"

definition ScalarSetitem_body ::
  "'a \<Rightarrow> int list \<Rightarrow> int list \<Rightarrow> nat \<Rightarrow> error + int list \<times> 'a AlignedArray \<Rightarrow> nat
     \<Rightarrow> error + int list \<times> 'a AlignedArray" where
  "ScalarSetitem_body val shape strides offset state cnt =
     (case state of
        Inl e \<Rightarrow> Inl e
      | Inr (index, out) \<Rightarrow>
          (case position (length shape) index strides offset of
             Inl e \<Rightarrow> Inl e
           | Inr pos \<Rightarrow> Inr (advance (length shape) index shape, store out pos val)))"

definition ScalarSetitem ::
  "nat \<Rightarrow> 'a \<Rightarrow> 'a AlignedArray \<Rightarrow> int list \<Rightarrow> int list \<Rightarrow> nat \<Rightarrow> error + 'a AlignedArray" where
  "ScalarSetitem size_n val out shape strides offset =
     map_sum id snd
       (foldl (ScalarSetitem_body val shape strides offset)
          (Inr (replicate (length shape) 0, out)) [0..<size_n])"

text \<open>
  The vocabulary of the statements about the traversal.  An index vector is in range when
  it has one entry per dimension, each below its extent.  Its place in the compact
  (row-major, last dimension fastest) layout is \<open>compact_position\<close>: the Horner form
  \<open>row_major\<close> over all dimensions.  \<open>extent shape k\<close> is the product of the first \<open>k\<close>
  extents.  The place of an index vector in the strided view is \<open>strided_position\<close>: the
  offset plus the sum of the products of index and stride, as a \<^verbatim>\<open>size_t\<close>.  The products
  of a view fit when, in every dimension, the greatest index times the stride is an
  \<^verbatim>\<open>int32_t\<close> (then so is every smaller index times the stride); this also says that
  there is one stride per dimension.  A view is non-overlapping when distinct index
  vectors in range have distinct strided positions.  \<open>round_trip\<close> compacts a view into
  the buffer \<open>c\<close> and scatters the result into \<open>out\<close> with the same shape, strides and
  offset.
\<close>

fun row_major :: "int list \<Rightarrow> int list \<Rightarrow> nat \<Rightarrow> int" where
  "row_major shape index 0 = 0"
| "row_major shape index (Suc d) = row_major shape index d * shape ! d + index ! d"

fun extent :: "int list \<Rightarrow> nat \<Rightarrow> int" where
  "extent shape 0 = 1"
| "extent shape (Suc d) = extent shape d * shape ! d"

definition in_range :: "int list \<Rightarrow> int list \<Rightarrow> bool" where
  "in_range shape index \<longleftrightarrow>
     length index = length shape \<and> (\<forall>d<length shape. 0 \<le> index ! d \<and> index ! d < shape ! d)"

definition compact_position :: "int list \<Rightarrow> int list \<Rightarrow> nat" where
  "compact_position shape index = nat (row_major shape index (length shape))"

definition strided_position :: "nat \<Rightarrow> int list \<Rightarrow> int list \<Rightarrow> nat \<Rightarrow> nat" where
  "strided_position n_dim index strides offset =
     nat ((int offset + (\<Sum>d<n_dim. index ! d * strides ! d)) mod 2 ^ 64)"

definition products_fit :: "int list \<Rightarrow> int list \<Rightarrow> bool" where
  "products_fit shape strides \<longleftrightarrow> list_all2 (\<lambda>s t. int32_t (max 0 (s - 1) * t)) shape strides"

definition non_overlapping :: "int list \<Rightarrow> int list \<Rightarrow> nat \<Rightarrow> bool" where
  "non_overlapping shape strides offset \<longleftrightarrow>
     (\<forall>idx idx'. in_range shape idx \<and> in_range shape idx'
        \<and> strided_position (length shape) idx strides offset
            = strided_position (length shape) idx' strides offset
        \<longrightarrow> idx = idx')"

definition round_trip ::
  "'a AlignedArray \<Rightarrow> 'a AlignedArray \<Rightarrow> 'a AlignedArray \<Rightarrow> int list \<Rightarrow> int list \<Rightarrow> nat
     \<Rightarrow> (error + 'a AlignedArray) option" where
  "round_trip a c out shape strides offset =
     (case Compact a c shape strides offset of
        None \<Rightarrow> None
      | Some (Inl e) \<Rightarrow> Some (Inl e)
      | Some (Inr c') \<Rightarrow> EwiseSetitem c' out shape strides offset)"

subsection \<open>Matrix multiplication\<close>

text \<open>
  \<^verbatim>\<open>Matmul\<close>: the counters and the sizes \<open>m\<close>, \<open>n\<close>, \<open>p\<close> are \<^verbatim>\<open>uint32_t\<close>, so
  the three index expressions are computed modulo \<open>2^32\<close> before they index the storage.
\<close>

definition u32 :: "nat \<Rightarrow> nat" where
  "u32 x = x mod 2 ^ 32"

definition Matmul ::
  "('a::{zero,plus,times}) AlignedArray \<Rightarrow> 'a AlignedArray \<Rightarrow> 'a AlignedArray \<Rightarrow> nat \<Rightarrow> nat \<Rightarrow> nat
     \<Rightarrow> 'a AlignedArray" where
  "Matmul a b out m n p =
     foldl (\<lambda>out i.
       foldl (\<lambda>out j.
         let out = store out (u32 (i * p + j)) 0 in
         foldl (\<lambda>out k.
             store out (u32 (i * p + j))
               (ptr out (u32 (i * p + j)) + ptr a (u32 (i * n + k)) * ptr b (u32 (k * p + j))))
           out [0..<n])
         out [0..<p])
       out [0..<m]"

text \<open>
  \<^verbatim>\<open>AlignedDot\<close> takes three pointers into the storages of its callers: each is an array
  and the index of the first element of the tile.  Its counters are \<^verbatim>\<open>size_t\<close>.
\<close>

definition TILE :: nat where
  "TILE = 8"

definition AlignedDot ::
  "('a::{plus,times}) AlignedArray \<Rightarrow> nat \<Rightarrow> 'a AlignedArray \<Rightarrow> nat \<Rightarrow> 'a AlignedArray \<Rightarrow> nat
     \<Rightarrow> 'a AlignedArray" where
  "AlignedDot a a_tile b b_tile out out_tile =
     foldl (\<lambda>out i.
       foldl (\<lambda>out j.
         foldl (\<lambda>out k.
             store out (out_tile + (i * TILE + j))
               (ptr out (out_tile + (i * TILE + j))
                  + ptr a (a_tile + (i * TILE + k)) * ptr b (b_tile + (k * TILE + j))))
           out [0..<TILE])
         out [0..<TILE])
       out [0..<TILE]"

text \<open>
  The values of the counter of \<^verbatim>\<open>for (size_t i = 0; i < m; i += TILE)\<close>: the multiples of
  \<open>TILE\<close> below \<open>m\<close>.  The index expressions of \<^verbatim>\<open>MatmulTiled\<close> are \<^verbatim>\<open>size_t\<close>.
\<close>

definition tile_starts :: "nat \<Rightarrow> nat list" where
  "tile_starts m = map (\<lambda>t. t * TILE) [0..<(m + TILE - 1) div TILE]"

definition MatmulTiled ::
  "('a::{zero,plus,times}) AlignedArray \<Rightarrow> 'a AlignedArray \<Rightarrow> 'a AlignedArray \<Rightarrow> nat \<Rightarrow> nat \<Rightarrow> nat
     \<Rightarrow> error + 'a AlignedArray" where
  "MatmulTiled a b out m n p =
     (case Fill out 0 of
        Inl e \<Rightarrow> Inl e
      | Inr out \<Rightarrow>
          Inr (foldl (\<lambda>out i.
                 foldl (\<lambda>out j.
                   foldl (\<lambda>out k.
                       AlignedDot a (i * n + k * TILE) b (k * p + j * TILE) out (i * p + j * TILE))
                     out (tile_starts n))
                   out (tile_starts p))
                 out (tile_starts m)))"

text \<open>
  The vocabulary of the statements about the two products.  \<open>row_times_column\<close> is the
  sum \<open>a[i,0] * b[0,j] + ... + a[i,n-1] * b[n-1,j]\<close> over the compact layouts of an
  \<open>m \<times> n\<close> and an \<open>n \<times> p\<close> matrix, taken left to right from \<open>0\<close>.  \<open>tiled_index cols r c\<close> is
  the place of the element \<open>(r, c)\<close> of a matrix with \<open>cols\<close> columns in the compact
  four-dimensional layout \<^verbatim>\<open>[rows/TILE][cols/TILE][TILE][TILE]\<close>, and \<open>tiling rows cols a2 a\<close>
  says that \<open>a\<close> holds in that layout the matrix that \<open>a2\<close> holds in the compact
  two-dimensional one.  \<open>filled v n\<close> is a buffer of \<open>n\<close> cells that all hold \<open>v\<close>.
\<close>

definition row_times_column ::
  "('a::{zero,plus,times}) AlignedArray \<Rightarrow> 'a AlignedArray \<Rightarrow> nat \<Rightarrow> nat \<Rightarrow> nat \<Rightarrow> nat \<Rightarrow> 'a" where
  "row_times_column a b n p i j =
     foldl (\<lambda>s k. s + ptr a (i * n + k) * ptr b (k * p + j)) 0 [0..<n]"

definition tiled_index :: "nat \<Rightarrow> nat \<Rightarrow> nat \<Rightarrow> nat" where
  "tiled_index cols r c =
     (((r div TILE) * (cols div TILE) + c div TILE) * TILE + r mod TILE) * TILE + c mod TILE"

definition tiling :: "nat \<Rightarrow> nat \<Rightarrow> 'a AlignedArray \<Rightarrow> 'a AlignedArray \<Rightarrow> bool" where
  "tiling rows cols a2 a \<longleftrightarrow>
     (\<forall>r<rows. \<forall>c<cols. ptr a (tiled_index cols r c) = ptr a2 (r * cols + c))"

definition filled :: "'a \<Rightarrow> nat \<Rightarrow> 'a AlignedArray" where
  "filled v n = \<lparr>ptr = (\<lambda>i. v), size_a = n\<rparr>"

text \<open>
  Buffers for the worked examples of the tiled product: \<open>counting n\<close> holds
  \<open>0, 1, 2, ...\<close> in its \<open>n\<close> cells, and \<open>tiled cols a2\<close> holds the matrix of the compact
  buffer \<open>a2\<close>, which has \<open>cols\<close> columns, in the tiled layout: its cell \<open>x\<close> is the
  element of \<open>a2\<close> at the row and column that \<open>x\<close> is the tiled place of.
\<close>

definition counting :: "nat \<Rightarrow> ('a::semiring_1) AlignedArray" where
  "counting n = \<lparr>ptr = (\<lambda>i. of_nat i), size_a = n\<rparr>"

definition untiled_index :: "nat \<Rightarrow> nat \<Rightarrow> nat" where
  "untiled_index cols x =
     (x div (TILE * TILE) div (cols div TILE) * TILE + x div TILE mod TILE) * cols
       + (x div (TILE * TILE) mod (cols div TILE) * TILE + x mod TILE)"

definition tiled :: "nat \<Rightarrow> 'a AlignedArray \<Rightarrow> 'a AlignedArray" where
  "tiled cols a2 = \<lparr>ptr = (\<lambda>x. ptr a2 (untiled_index cols x)), size_a = size_a a2\<rparr>"

subsection \<open>Grid sampling\<close>



definition static_cast_int32 :: "real \<Rightarrow> int" where
  "static_cast_int32 x = (if 0 \<le> x then \<lfloor>x\<rfloor> else \<lceil>x\<rceil>)"










section \<open>Loops that write one cell per iteration\<close>

lemma ptr_store [simp]: "ptr (store out i v) = (ptr out)(i := v)"
  by (simp add: store_def)

lemma size_a_store [simp]: "size_a (store out i v) = size_a out"
  by (simp add: store_def)

lemma size_a_from_list [simp]: "size_a (from_list d xs) = length xs"
  by (simp add: from_list_def)

lemma ptr_from_list: "ptr (from_list d xs) i = (if i < length xs then xs ! i else d)"
  by (simp add: from_list_def)

lemma size_a_foldl_store [simp]:
  "size_a (foldl (\<lambda>out i. store out (h i) (g out i)) out xs) = size_a out"
  by (induction xs arbitrary: out) simp_all

lemma ptr_foldl_store_upt:
  "ptr (foldl (\<lambda>out i. store out i (g i)) out [0..<n]) i = (if i < n then g i else ptr out i)"
  by (induction n) simp_all

lemma to_list_foldl_store_upt:
  "to_list (foldl (\<lambda>out i. store out i (g i)) out [0..<n]) =
     map (\<lambda>i. if i < n then g i else ptr out i) [0..<size_a out]"
  by (simp add: to_list_def ptr_foldl_store_upt)

lemma Fill_fills:
  assumes "size_a out \<le> INT_MAX"
  shows "\<exists>out'. Fill out val = Inr out' \<and> size_a out' = size_a out
           \<and> (\<forall>i. ptr out' i = (if i < size_a out then val else ptr out i))"
  using assms by (simp add: Fill_def ptr_foldl_store_upt)

lemma ptr_DEFINE_EWISE_FUNC:
  "ptr (DEFINE_EWISE_FUNC opr a b out) i =
     (if i < size_a a then opr (ptr a i) (ptr b i) else ptr out i)"
  by (simp add: DEFINE_EWISE_FUNC_def ptr_foldl_store_upt)

lemma ptr_DEFINE_SCALAR_FUNC:
  "ptr (DEFINE_SCALAR_FUNC opr a val out) i =
     (if i < size_a a then opr (ptr a i) val else ptr out i)"
  by (simp add: DEFINE_SCALAR_FUNC_def ptr_foldl_store_upt)

lemma ptr_DEFINE_UNARY_FUNC:
  "ptr (DEFINE_UNARY_FUNC opr a out) i =
     (if i < size_a a then opr (ptr a i) else ptr out i)"
  by (simp add: DEFINE_UNARY_FUNC_def ptr_foldl_store_upt)

lemma ptr_EwiseAdd:
  "ptr (EwiseAdd a b out) i = (if i < size_a a then ptr a i + ptr b i else ptr out i)"
  by (simp add: EwiseAdd_def ptr_foldl_store_upt)

lemma ptr_ScalarAdd:
  "ptr (ScalarAdd a val out) i = (if i < size_a a then ptr a i + val else ptr out i)"
  by (simp add: ScalarAdd_def ptr_foldl_store_upt)

lemmas ewise_defs =
  EwiseMul_def ScalarMul_def EwiseDiv_def ScalarDiv_def ScalarPower_def EwiseMaximum_def
  ScalarMaximum_def EwiseEq_def ScalarEq_def EwiseGe_def ScalarGe_def EwiseLog_def
  EwiseExp_def EwiseTanh_def

lemmas ptr_ewise =
  ptr_EwiseAdd ptr_ScalarAdd ptr_DEFINE_EWISE_FUNC ptr_DEFINE_SCALAR_FUNC ptr_DEFINE_UNARY_FUNC

section \<open>Allocation\<close>

text \<open>
  Claim C9.  For the element count \<open>2^62\<close> the constructor asks the platform for no bytes
  at all, since \<open>2^62 * 4\<close> wraps to \<open>0\<close>: where that request succeeds (even on a platform
  with no memory left) it returns, raising nothing, an array whose \<^verbatim>\<open>size\<close> is \<open>2^62\<close>
  over a block of zero bytes.
\<close>

theorem AlignedArray_new_size_wraps:
  "AlignedArray_new posix_memalign (2 ^ 62) =
     (case posix_memalign ALIGNMENT 0 of
        None \<Rightarrow> Inl bad_alloc
      | Some p \<Rightarrow> Inr \<lparr>address = p, bytes = 0, size_f = 2 ^ 62\<rparr>)
   \<and> AlignedArray_new zero_bytes (2 ^ 62) = Inr \<lparr>address = 0, bytes = 0, size_f = 2 ^ 62\<rparr>"
proof -
  have wrap: "(2 ^ 62 * ELEM_SIZE) mod 2 ^ 64 = (0::nat)"
    by (simp add: ELEM_SIZE_def)
  show ?thesis
    unfolding AlignedArray_new_def wrap by (simp add: zero_bytes_def)
qed

text \<open>
  Below \<open>2^62\<close> elements the constructor asks for exactly \<open>count * 4\<close> bytes at the
  alignment \<open>256\<close>, raises \<^verbatim>\<open>bad_alloc\<close> exactly when the platform fails, and otherwise
  records the address the platform gave and the size \<open>count\<close>.
\<close>

theorem AlignedArray_new_allocates:
  assumes "count < 2 ^ 62"
  shows "AlignedArray_new posix_memalign count =
     (case posix_memalign ALIGNMENT (count * ELEM_SIZE) of
        None \<Rightarrow> Inl bad_alloc
      | Some p \<Rightarrow> Inr \<lparr>address = p, bytes = count * ELEM_SIZE, size_f = count\<rparr>)"
proof -
  have "count * ELEM_SIZE < 2 ^ 64"
    using assms by (simp add: ELEM_SIZE_def)
  then have fits: "(count * ELEM_SIZE) mod 2 ^ 64 = count * ELEM_SIZE"
    by simp
  show ?thesis
    unfolding AlignedArray_new_def fits by (rule refl)
qed

theorem AlignedArray_new_allocates_witness:
  "(3::nat) < 2 ^ 62
   \<and> AlignedArray_new (\<lambda>alignment n. if n \<le> 100 then Some (7 * alignment) else None) 3
       = Inr \<lparr>address = 1792, bytes = 12, size_f = 3\<rparr>
   \<and> AlignedArray_new (\<lambda>alignment n. if n \<le> 100 then Some (7 * alignment) else None) 26
       = Inl bad_alloc"
proof -
  have h: "(3::nat) < 2 ^ 62" and h': "(26::nat) < 2 ^ 62" by simp_all
  show ?thesis
    using AlignedArray_new_allocates [OF h, of "\<lambda>alignment n. if n \<le> 100 then Some (7 * alignment) else None"]
      AlignedArray_new_allocates [OF h', of "\<lambda>alignment n. if n \<le> 100 then Some (7 * alignment) else None"]
    by (simp add: ELEM_SIZE_def ALIGNMENT_def)
qed

section \<open>The strided traversal as a mixed-radix counter\<close>

lemma row_major_update: "k \<le> d \<Longrightarrow> row_major shape (index[d := v]) k = row_major shape index k"
  by (induction k) simp_all

lemma row_major_cong:
  "(\<And>d. d < k \<Longrightarrow> index ! d = index' ! d) \<Longrightarrow> row_major shape index k = row_major shape index' k"
  by (induction k) simp_all

lemma extent_pos: "(\<And>d. d < k \<Longrightarrow> 0 < shape ! d) \<Longrightarrow> 0 < extent shape k"
  by (induction k) simp_all

lemma digit_step:
  fixes r e s i :: int
  assumes "r < e" "0 \<le> i" "i < s"
  shows "r * s + i < e * s"
proof -
  have "(r + 1) * s \<le> e * s"
    using assms by (intro mult_right_mono) auto
  then show ?thesis
    using assms by (simp add: algebra_simps)
qed

lemma row_major_bounds:
  assumes "\<And>d. d < k \<Longrightarrow> 0 \<le> index ! d \<and> index ! d < shape ! d"
  shows "0 \<le> row_major shape index k \<and> row_major shape index k < extent shape k"
  using assms
proof (induction k)
  case 0
  show ?case by simp
next
  case (Suc k)
  have ih: "0 \<le> row_major shape index k \<and> row_major shape index k < extent shape k"
    using Suc.IH Suc.prems by simp
  have dk: "0 \<le> index ! k \<and> index ! k < shape ! k"
    using Suc.prems by simp
  have "0 \<le> row_major shape index k * shape ! k"
    using ih dk by simp
  moreover have "row_major shape index k * shape ! k + index ! k < extent shape k * shape ! k"
    using ih dk by (intro digit_step) auto
  ultimately show ?case
    using dk by simp
qed

lemma increment_length: "length (snd (increment k index shape)) = length index"
  by (induction k arbitrary: index) (simp_all add: Let_def)

lemma increment_above:
  "k \<le> d \<Longrightarrow> snd (increment k index shape) ! d = index ! d"
  by (induction k arbitrary: index) (simp_all add: Let_def)

lemma increment_step:
  assumes "\<And>d. d < k \<Longrightarrow> 0 \<le> index ! d \<and> index ! d < shape ! d"
    and "k \<le> length index" and "0 < k"
  shows "if row_major shape index k + 1 < extent shape k
         then \<not> fst (increment k index shape)
           \<and> (\<forall>d<k. 0 \<le> snd (increment k index shape) ! d \<and> snd (increment k index shape) ! d < shape ! d)
           \<and> row_major shape (snd (increment k index shape)) k = row_major shape index k + 1
         else fst (increment k index shape)"
  using assms
proof (induction k arbitrary: index)
  case 0
  then show ?case by simp
next
  case (Suc k)
  let ?s = "shape ! k" and ?i = "index ! k"
  have dk: "0 \<le> ?i" "?i < ?s" and len: "k < length index"
    using Suc.prems by auto
  have below: "\<And>d. d < k \<Longrightarrow> 0 \<le> index ! d \<and> index ! d < shape ! d"
    using Suc.prems by simp
  have rb: "0 \<le> row_major shape index k" "row_major shape index k < extent shape k"
    using row_major_bounds [of k index shape] below by auto
  show ?case
  proof (cases "?i + 1 < ?s")
    case True
    have "row_major shape index k * ?s + (?i + 1) < extent shape k * ?s"
      using rb dk True by (intro digit_step) auto
    then show ?thesis
      using True len dk below by (auto simp: Let_def row_major_update nth_list_update less_Suc_eq)
  next
    case False
    then have last: "?i + 1 = ?s"
      using dk by simp
    let ?index0 = "index[k := 0]"
    have upd: "index[k := ?i + 1, k := 0] = ?index0"
      by simp
    show ?thesis
    proof (cases "k = 0")
      case True
      then show ?thesis
        using False len last by (simp add: Let_def)
    next
      case k: False
      have below0: "\<And>d. d < k \<Longrightarrow> 0 \<le> ?index0 ! d \<and> ?index0 ! d < shape ! d"
        using below by simp
      have ih: "if row_major shape ?index0 k + 1 < extent shape k
         then \<not> fst (increment k ?index0 shape)
           \<and> (\<forall>d<k. 0 \<le> snd (increment k ?index0 shape) ! d \<and> snd (increment k ?index0 shape) ! d < shape ! d)
           \<and> row_major shape (snd (increment k ?index0 shape)) k = row_major shape ?index0 k + 1
         else fst (increment k ?index0 shape)"
        using Suc.IH [of ?index0] below0 len k by simp
      have rm0: "row_major shape ?index0 k = row_major shape index k"
        by (simp add: row_major_update)
      have unfold: "increment (Suc k) index shape = increment k ?index0 shape"
        using False k len by (simp add: Let_def)
      have at_k: "snd (increment k ?index0 shape) ! k = 0"
        using len by (simp add: increment_above)
      have spos: "0 < ?s"
        using dk by simp
      have iff: "row_major shape index (Suc k) + 1 < extent shape (Suc k)
                 \<longleftrightarrow> row_major shape index k + 1 < extent shape k"
      proof -
        have "row_major shape index (Suc k) + 1 = (row_major shape index k + 1) * ?s"
          using last by (simp add: algebra_simps)
        then show ?thesis
          using spos by (simp add: mult_less_cancel_right)
      qed
      show ?thesis
      proof (cases "row_major shape index k + 1 < extent shape k")
        case True
        from ih True rm0 have a: "\<not> fst (increment k ?index0 shape)"
          and b: "\<forall>d<k. 0 \<le> snd (increment k ?index0 shape) ! d \<and> snd (increment k ?index0 shape) ! d < shape ! d"
          and c: "row_major shape (snd (increment k ?index0 shape)) k = row_major shape index k + 1"
          by simp_all
        have b': "\<forall>d<Suc k. 0 \<le> snd (increment k ?index0 shape) ! d \<and> snd (increment k ?index0 shape) ! d < shape ! d"
          using b at_k spos by (auto simp: less_Suc_eq)
        have c': "row_major shape (snd (increment k ?index0 shape)) (Suc k) = row_major shape index (Suc k) + 1"
          using c at_k last by (simp add: algebra_simps)
        show ?thesis
          unfolding unfold using iff True a b' c' by simp
      next
        case False
        then show ?thesis
          unfolding unfold using iff ih rm0 by simp
      qed
    qed
  qed
qed

lemma row_major_inj:
  assumes "\<And>d. d < k \<Longrightarrow> 0 \<le> index ! d \<and> index ! d < shape ! d"
    and "\<And>d. d < k \<Longrightarrow> 0 \<le> index' ! d \<and> index' ! d < shape ! d"
    and "row_major shape index k = row_major shape index' k"
  shows "\<forall>d<k. index ! d = index' ! d"
  using assms
proof (induction k)
  case 0
  then show ?case by simp
next
  case (Suc k)
  let ?s = "shape ! k"
  have a: "0 \<le> index ! k" "index ! k < ?s" and b: "0 \<le> index' ! k" "index' ! k < ?s"
    using Suc.prems(1) [of k] Suc.prems(2) [of k] by auto
  have eq: "row_major shape index k * ?s + index ! k = row_major shape index' k * ?s + index' ! k"
    using Suc.prems(3) by simp
  have "(row_major shape index k * ?s + index ! k) mod ?s = index ! k"
    using a by simp
  moreover have "(row_major shape index' k * ?s + index' ! k) mod ?s = index' ! k"
    using b by simp
  ultimately have dk: "index ! k = index' ! k"
    using eq by simp
  have "(row_major shape index k * ?s + index ! k) div ?s = row_major shape index k"
    using a by simp
  moreover have "(row_major shape index' k * ?s + index' ! k) div ?s = row_major shape index' k"
    using b by simp
  ultimately have "row_major shape index k = row_major shape index' k"
    using eq by simp
  then have "\<forall>d<k. index ! d = index' ! d"
    using Suc.IH Suc.prems(1,2) by simp
  then show ?case
    using dk by (auto simp: less_Suc_eq)
qed

lemma in_range_eqI:
  assumes "in_range shape index" "in_range shape index'"
    and "row_major shape index (length shape) = row_major shape index' (length shape)"
  shows "index = index'"
proof (rule nth_equalityI)
  show "length index = length index'"
    using assms by (simp add: in_range_def)
next
  fix d assume "d < length index"
  moreover have "\<forall>d<length shape. index ! d = index' ! d"
    using assms by (intro row_major_inj) (auto simp: in_range_def)
  ultimately show "index ! d = index' ! d"
    using assms(1) by (simp add: in_range_def)
qed

lemma in_range_bounds:
  assumes "in_range shape index"
  shows "0 \<le> row_major shape index (length shape)"
    and "row_major shape index (length shape) < extent shape (length shape)"
  using row_major_bounds [of "length shape" index shape] assms by (auto simp: in_range_def)

lemma in_range_increment:
  assumes "in_range shape index" "shape \<noteq> []"
    and "row_major shape index (length shape) + 1 < extent shape (length shape)"
  shows "\<not> fst (increment (length shape) index shape)"
    and "in_range shape (snd (increment (length shape) index shape))"
    and "row_major shape (snd (increment (length shape) index shape)) (length shape)
           = row_major shape index (length shape) + 1"
  using increment_step [of "length shape" index shape] assms
  by (auto simp: in_range_def increment_length)

lemma in_range_increment_last:
  assumes "in_range shape index" "shape \<noteq> []"
    and "\<not> row_major shape index (length shape) + 1 < extent shape (length shape)"
  shows "fst (increment (length shape) index shape)"
  using increment_step [of "length shape" index shape] assms
  by (auto simp: in_range_def)

lemma to_size_t_add:
  "(nat (z mod 2 ^ 64) + to_size_t y) mod 2 ^ 64 = nat ((z + y) mod 2 ^ 64)"
proof -
  have "int ((nat (z mod 2 ^ 64) + to_size_t y) mod 2 ^ 64) = (z mod 2 ^ 64 + y mod 2 ^ 64) mod 2 ^ 64"
    by (simp add: to_size_t_def zmod_int)
  also have "\<dots> = (z + y) mod 2 ^ 64"
    by (simp add: mod_add_eq)
  finally show ?thesis
    by (metis nat_int)
qed

lemma position_sum:
  assumes "\<And>d. d < n \<Longrightarrow> int32_t (index ! d * strides ! d)" and "offset < 2 ^ 64"
  shows "position n index strides offset = Inr (strided_position n index strides offset)"
  using assms(1)
proof (induction n)
  case 0
  have "int offset mod 2 ^ 64 = int offset"
    using assms(2) by simp
  then show ?case
    by (simp add: position_def strided_position_def)
next
  case (Suc n)
  have ih: "position n index strides offset = Inr (strided_position n index strides offset)"
    using Suc by simp
  have fits: "int32_t (index ! n * strides ! n)"
    using Suc.prems by simp
  have "position (Suc n) index strides offset
          = Inr ((strided_position n index strides offset + to_size_t (index ! n * strides ! n)) mod 2 ^ 64)"
    using ih fits by (simp add: position_def)
  also have "(strided_position n index strides offset + to_size_t (index ! n * strides ! n)) mod 2 ^ 64
          = nat ((int offset + (\<Sum>d<n. index ! d * strides ! d) + index ! n * strides ! n) mod 2 ^ 64)"
    unfolding strided_position_def by (rule to_size_t_add)
  finally show ?case
    by (simp add: strided_position_def add.assoc)
qed

lemma int32_t_product:
  assumes "0 \<le> i" "i < s" and "int32_t (max 0 (s - 1) * t)"
  shows "int32_t (i * t)"
proof (cases "0 \<le> t")
  case True
  have "i * t \<le> (s - 1) * t"
    using assms(2) True by (intro mult_right_mono) auto
  moreover have "0 \<le> i * t"
    using assms(1) True by simp
  ultimately show ?thesis
    using assms by (simp add: int32_t_def max_def split: if_splits)
next
  case False
  have "(s - 1) * t \<le> i * t"
    using assms(2) False by (intro mult_right_mono_neg) auto
  moreover have "i * t \<le> 0"
    using assms(1) False by (simp add: mult_nonneg_nonpos)
  ultimately show ?thesis
    using assms by (simp add: int32_t_def max_def split: if_splits)
qed

lemma position_in_range:
  assumes "products_fit shape strides" and "offset < 2 ^ 64" and "in_range shape index"
  shows "position (length shape) index strides offset
           = Inr (strided_position (length shape) index strides offset)"
proof (rule position_sum [OF _ assms(2)])
  fix d assume d: "d < length shape"
  have fits: "int32_t (max 0 (shape ! d - 1) * strides ! d)"
    using assms(1) d by (simp add: products_fit_def list_all2_conv_all_nth)
  have "0 \<le> index ! d" "index ! d < shape ! d"
    using assms(3) d by (simp_all add: in_range_def)
  then show "int32_t (index ! d * strides ! d)"
    using fits by (rule int32_t_product)
qed

lemma products_fit_length: "products_fit shape strides \<Longrightarrow> length strides = length shape"
  by (simp add: products_fit_def list_all2_lengthD)

lemma Compact_loop_correct:
  assumes fit: "products_fit shape strides" and off: "offset < 2 ^ 64"
    and "in_range shape index" "shape \<noteq> []"
    and "cnt = nat (row_major shape index (length shape))"
  shows "\<exists>out'. Compact_loop a shape strides offset index out cnt
                   = Some (Inr (out', nat (extent shape (length shape)) - 1))
           \<and> size_a out' = size_a out
           \<and> (\<forall>idx. in_range shape idx
                  \<and> row_major shape index (length shape) \<le> row_major shape idx (length shape)
                \<longrightarrow> ptr out' (compact_position shape idx)
                      = ptr a (strided_position (length shape) idx strides offset))
           \<and> (\<forall>j. j < cnt \<or> nat (extent shape (length shape)) \<le> j \<longrightarrow> ptr out' j = ptr out j)"
  using assms(3-5)
proof (induction "nat (extent shape (length shape) - 1 - row_major shape index (length shape))"
       arbitrary: index out cnt)
  case 0
  let ?n = "length shape"
  let ?out1 = "store out cnt (ptr a (strided_position ?n index strides offset))"
  have rb: "0 \<le> row_major shape index ?n" "row_major shape index ?n < extent shape ?n"
    using in_range_bounds [OF "0.prems"(1)] by auto
  have last: "row_major shape index ?n = extent shape ?n - 1"
    using "0.hyps" rb by simp
  have ret: "fst (increment ?n index shape)"
    using in_range_increment_last [OF "0.prems"(1,2)] last by simp
  have run: "Compact_loop a shape strides offset index out cnt = Some (Inr (?out1, cnt))"
    by (subst Compact_loop.simps)
      (simp add: Let_def split_beta ret position_in_range [OF fit off "0.prems"(1)])
  have cnt: "cnt = nat (extent shape ?n) - 1"
    using "0.prems"(3) last rb by simp
  have "ptr ?out1 (compact_position shape idx) = ptr a (strided_position ?n idx strides offset)"
    if "in_range shape idx" "row_major shape index ?n \<le> row_major shape idx ?n" for idx
  proof -
    have "row_major shape idx ?n < extent shape ?n"
      using in_range_bounds [OF that(1)] by simp
    then have "row_major shape index ?n = row_major shape idx ?n"
      using that(2) last by simp
    then have "index = idx"
      using in_range_eqI [OF "0.prems"(1) that(1)] by simp
    then show ?thesis
      using "0.prems"(3) by (simp add: compact_position_def)
  qed
  moreover have "ptr ?out1 j = ptr out j" if "j < cnt \<or> nat (extent shape ?n) \<le> j" for j
    using that cnt rb by auto
  ultimately show ?case
    using run cnt by auto
next
  case (Suc m)
  let ?n = "length shape"
  let ?out1 = "store out cnt (ptr a (strided_position ?n index strides offset))"
  let ?index' = "snd (increment ?n index shape)"
  have rb: "0 \<le> row_major shape index ?n" "row_major shape index ?n < extent shape ?n"
    using in_range_bounds [OF Suc.prems(1)] by auto
  have more: "row_major shape index ?n + 1 < extent shape ?n"
    using Suc.hyps(2) by simp
  note inc = in_range_increment [OF Suc.prems(1,2) more]
  have run: "Compact_loop a shape strides offset index out cnt
               = Compact_loop a shape strides offset ?index' ?out1 (cnt + 1)"
    by (subst Compact_loop.simps)
      (simp add: Let_def split_beta inc(1) position_in_range [OF fit off Suc.prems(1)])
  have m: "m = nat (extent shape ?n - 1 - row_major shape ?index' ?n)"
    using Suc.hyps(2) inc(3) by simp
  have cnt': "cnt + 1 = nat (row_major shape ?index' ?n)"
    using Suc.prems(3) inc(3) rb by simp
  obtain out' where
    res: "Compact_loop a shape strides offset ?index' ?out1 (cnt + 1)
            = Some (Inr (out', nat (extent shape ?n) - 1))"
    and sz: "size_a out' = size_a ?out1"
    and val: "\<And>idx. in_range shape idx
                 \<Longrightarrow> row_major shape ?index' ?n \<le> row_major shape idx ?n
                 \<Longrightarrow> ptr out' (compact_position shape idx) = ptr a (strided_position ?n idx strides offset)"
    and frame: "\<And>j. j < cnt + 1 \<or> nat (extent shape ?n) \<le> j \<Longrightarrow> ptr out' j = ptr ?out1 j"
    using Suc.hyps(1) [OF m inc(2) Suc.prems(2) cnt', of ?out1] by blast
  have "ptr out' (compact_position shape idx) = ptr a (strided_position ?n idx strides offset)"
    if "in_range shape idx" "row_major shape index ?n \<le> row_major shape idx ?n" for idx
  proof (cases "row_major shape index ?n = row_major shape idx ?n")
    case True
    then have "index = idx"
      using in_range_eqI [OF Suc.prems(1) that(1)] by simp
    then have "compact_position shape idx = cnt"
      using Suc.prems(3) by (simp add: compact_position_def)
    then show ?thesis
      using frame [of cnt] \<open>index = idx\<close> by simp
  next
    case False
    then show ?thesis
      using val [OF that(1)] that(2) inc(3) by simp
  qed
  moreover have "ptr out' j = ptr out j" if "j < cnt \<or> nat (extent shape ?n) \<le> j" for j
  proof -
    have "j \<noteq> cnt"
      using that Suc.prems(3) rb by auto
    then show ?thesis
      using frame [of j] that by auto
  qed
  ultimately show ?case
    using run res sz by auto
qed

lemma Compact_loop_returns:
  assumes "Compact_loop a shape strides offset index out cnt = Some y"
  shows "shape \<noteq> []"
  using assms
proof (induction rule: Compact_loop.raw_induct [rotated, consumes 1])
  case (1 loop a shape strides offset index out cnt y)
  show ?case
  proof
    assume "shape = []"
    then have "loop a [] strides offset index (store out cnt (ptr a offset)) (cnt + 1) = Some y"
      using "1.hyps" by (simp add: Let_def position_def)
    then show False
      using "1.IH" by blast
  qed
qed

lemma EwiseSetitem_loop_returns:
  assumes "EwiseSetitem_loop a shape strides offset index out cnt = Some y"
  shows "shape \<noteq> []"
  using assms
proof (induction rule: EwiseSetitem_loop.raw_induct [rotated, consumes 1])
  case (1 loop a shape strides offset index out cnt y)
  show ?case
  proof
    assume "shape = []"
    then have "loop a [] strides offset index (store out offset (ptr a cnt)) (cnt + 1) = Some y"
      using "1.hyps" by (simp add: Let_def position_def)
    then show False
      using "1.IH" by blast
  qed
qed

lemma Compact_rank0: "Compact a out [] strides offset = None"
proof (cases "Compact_loop a [] strides offset [] out 0")
  case None
  then show ?thesis by (simp add: Compact_def)
next
  case (Some y)
  then show ?thesis using Compact_loop_returns by blast
qed

lemma EwiseSetitem_rank0: "EwiseSetitem a out [] strides offset = None"
proof (cases "EwiseSetitem_loop a [] strides offset [] out 0")
  case None
  then show ?thesis by (simp add: EwiseSetitem_def)
next
  case (Some y)
  then show ?thesis using EwiseSetitem_loop_returns by blast
qed

lemma EwiseSetitem_loop_correct:
  assumes fit: "products_fit shape strides" and off: "offset < 2 ^ 64"
    and "in_range shape index" "shape \<noteq> []"
    and "cnt = nat (row_major shape index (length shape))"
  shows "\<exists>out'. EwiseSetitem_loop a shape strides offset index out cnt
                   = Some (Inr (out', nat (extent shape (length shape)) - 1))
           \<and> size_a out' = size_a out
           \<and> (non_overlapping shape strides offset \<longrightarrow>
                (\<forall>idx. in_range shape idx
                    \<and> row_major shape index (length shape) \<le> row_major shape idx (length shape)
                  \<longrightarrow> ptr out' (strided_position (length shape) idx strides offset)
                        = ptr a (compact_position shape idx)))
           \<and> (\<forall>j. (\<forall>idx. in_range shape idx
                       \<and> row_major shape index (length shape) \<le> row_major shape idx (length shape)
                     \<longrightarrow> strided_position (length shape) idx strides offset \<noteq> j)
                  \<longrightarrow> ptr out' j = ptr out j)"
  using assms(3-5)
proof (induction "nat (extent shape (length shape) - 1 - row_major shape index (length shape))"
       arbitrary: index out cnt)
  case 0
  let ?n = "length shape"
  let ?out1 = "store out (strided_position ?n index strides offset) (ptr a cnt)"
  have rb: "0 \<le> row_major shape index ?n" "row_major shape index ?n < extent shape ?n"
    using in_range_bounds [OF "0.prems"(1)] by auto
  have last: "row_major shape index ?n = extent shape ?n - 1"
    using "0.hyps" rb by simp
  have ret: "fst (increment ?n index shape)"
    using in_range_increment_last [OF "0.prems"(1,2)] last by simp
  have run: "EwiseSetitem_loop a shape strides offset index out cnt = Some (Inr (?out1, cnt))"
    by (subst EwiseSetitem_loop.simps)
      (simp add: Let_def split_beta ret position_in_range [OF fit off "0.prems"(1)])
  have cnt: "cnt = nat (extent shape ?n) - 1"
    using "0.prems"(3) last rb by simp
  have "ptr ?out1 (strided_position ?n idx strides offset) = ptr a (compact_position shape idx)"
    if "in_range shape idx" "row_major shape index ?n \<le> row_major shape idx ?n" for idx
  proof -
    have "row_major shape idx ?n < extent shape ?n"
      using in_range_bounds [OF that(1)] by simp
    then have "row_major shape index ?n = row_major shape idx ?n"
      using that(2) last by simp
    then have "index = idx"
      using in_range_eqI [OF "0.prems"(1) that(1)] by simp
    then show ?thesis
      using "0.prems"(3) by (simp add: compact_position_def)
  qed
  moreover have "ptr ?out1 j = ptr out j"
    if "\<forall>idx. in_range shape idx \<and> row_major shape index ?n \<le> row_major shape idx ?n
          \<longrightarrow> strided_position ?n idx strides offset \<noteq> j" for j
    using that "0.prems"(1) by auto
  ultimately show ?case
    using run cnt by auto
next
  case (Suc m)
  let ?n = "length shape"
  let ?out1 = "store out (strided_position ?n index strides offset) (ptr a cnt)"
  let ?index' = "snd (increment ?n index shape)"
  have rb: "0 \<le> row_major shape index ?n" "row_major shape index ?n < extent shape ?n"
    using in_range_bounds [OF Suc.prems(1)] by auto
  have more: "row_major shape index ?n + 1 < extent shape ?n"
    using Suc.hyps(2) by simp
  note inc = in_range_increment [OF Suc.prems(1,2) more]
  have run: "EwiseSetitem_loop a shape strides offset index out cnt
               = EwiseSetitem_loop a shape strides offset ?index' ?out1 (cnt + 1)"
    by (subst EwiseSetitem_loop.simps)
      (simp add: Let_def split_beta inc(1) position_in_range [OF fit off Suc.prems(1)])
  have m: "m = nat (extent shape ?n - 1 - row_major shape ?index' ?n)"
    using Suc.hyps(2) inc(3) by simp
  have cnt': "cnt + 1 = nat (row_major shape ?index' ?n)"
    using Suc.prems(3) inc(3) rb by simp
  obtain out' where
    res: "EwiseSetitem_loop a shape strides offset ?index' ?out1 (cnt + 1)
            = Some (Inr (out', nat (extent shape ?n) - 1))"
    and sz: "size_a out' = size_a ?out1"
    and val: "\<And>idx. non_overlapping shape strides offset \<Longrightarrow> in_range shape idx
                 \<Longrightarrow> row_major shape ?index' ?n \<le> row_major shape idx ?n
                 \<Longrightarrow> ptr out' (strided_position ?n idx strides offset) = ptr a (compact_position shape idx)"
    and frame: "\<And>j. (\<forall>idx. in_range shape idx
                       \<and> row_major shape ?index' ?n \<le> row_major shape idx ?n
                     \<longrightarrow> strided_position ?n idx strides offset \<noteq> j)
                  \<Longrightarrow> ptr out' j = ptr ?out1 j"
    using Suc.hyps(1) [OF m inc(2) Suc.prems(2) cnt', of ?out1] by blast
  have "ptr out' (strided_position ?n idx strides offset) = ptr a (compact_position shape idx)"
    if no: "non_overlapping shape strides offset" and "in_range shape idx"
      "row_major shape index ?n \<le> row_major shape idx ?n" for idx
  proof (cases "row_major shape index ?n = row_major shape idx ?n")
    case True
    then have same: "index = idx"
      using in_range_eqI [OF Suc.prems(1) that(2)] by simp
    have "strided_position ?n idx' strides offset \<noteq> strided_position ?n index strides offset"
      if "in_range shape idx'" "row_major shape ?index' ?n \<le> row_major shape idx' ?n" for idx'
    proof
      assume "strided_position ?n idx' strides offset = strided_position ?n index strides offset"
      then have "idx' = index"
        using no that(1) Suc.prems(1) unfolding non_overlapping_def by blast
      then show False
        using that(2) inc(3) by simp
    qed
    then have "ptr out' (strided_position ?n index strides offset) = ptr ?out1 (strided_position ?n index strides offset)"
      by (intro frame) blast
    then show ?thesis
      using same Suc.prems(3) by (simp add: compact_position_def)
  next
    case False
    then show ?thesis
      using val [OF no that(2)] that(3) inc(3) by simp
  qed
  moreover have "ptr out' j = ptr out j"
    if "\<forall>idx. in_range shape idx \<and> row_major shape index ?n \<le> row_major shape idx ?n
          \<longrightarrow> strided_position ?n idx strides offset \<noteq> j" for j
  proof -
    have "ptr out' j = ptr ?out1 j"
      using that inc(3) by (intro frame) auto
    moreover have "strided_position ?n index strides offset \<noteq> j"
      using that Suc.prems(1) by auto
    ultimately show ?thesis by simp
  qed
  ultimately show ?case
    using run res sz by auto
qed

lemma row_major_zero: "row_major shape (replicate n 0) k = 0" if "k \<le> n"
  using that by (induction k) simp_all

lemma in_range_zero:
  assumes "list_all (\<lambda>s. 0 < s) shape"
  shows "in_range shape (replicate (length shape) 0)"
  using assms by (simp add: in_range_def list_all_length)

lemma extent_take: "k \<le> length shape \<Longrightarrow> extent shape k = prod_list (take k shape)"
  by (induction k) (simp_all add: take_Suc_conv_app_nth)

lemma extent_prod_list: "extent shape (length shape) = prod_list shape"
  by (simp add: extent_take)

lemma Compact_valid:
  assumes "shape \<noteq> []" and "list_all (\<lambda>s. 0 < s) shape"
    and fit: "products_fit shape strides" and off: "offset < 2 ^ 64"
  shows "\<exists>out'. Compact a out shape strides offset = Some (Inr out')
           \<and> size_a out' = size_a out
           \<and> (\<forall>idx. in_range shape idx
                \<longrightarrow> ptr out' (compact_position shape idx)
                      = ptr a (strided_position (length shape) idx strides offset))
           \<and> (\<forall>j\<ge>nat (prod_list shape). ptr out' j = ptr out j)"
proof -
  let ?zero = "replicate (length shape) 0"
  have z: "in_range shape ?zero"
    using assms(2) by (rule in_range_zero)
  have c: "0 = nat (row_major shape ?zero (length shape))"
    by (simp add: row_major_zero)
  obtain out' where
    res: "Compact_loop a shape strides offset ?zero out 0
            = Some (Inr (out', nat (extent shape (length shape)) - 1))"
    and sz: "size_a out' = size_a out"
    and val: "\<And>idx. in_range shape idx
                 \<Longrightarrow> row_major shape ?zero (length shape) \<le> row_major shape idx (length shape)
                 \<Longrightarrow> ptr out' (compact_position shape idx)
                       = ptr a (strided_position (length shape) idx strides offset)"
    and frame: "\<And>j. j < 0 \<or> nat (extent shape (length shape)) \<le> j \<Longrightarrow> ptr out' j = ptr out j"
    using Compact_loop_correct [OF fit off z assms(1) c, of a out] by blast
  have "ptr out' (compact_position shape idx) = ptr a (strided_position (length shape) idx strides offset)"
    if "in_range shape idx" for idx
    using val [OF that] in_range_bounds(1) [OF that] by (simp add: row_major_zero)
  moreover have "ptr out' j = ptr out j" if "nat (prod_list shape) \<le> j" for j
    using frame [of j] that by (simp add: extent_prod_list)
  ultimately show ?thesis
    using res sz by (simp add: Compact_def)
qed

lemma EwiseSetitem_valid:
  assumes "shape \<noteq> []" and "list_all (\<lambda>s. 0 < s) shape"
    and fit: "products_fit shape strides" and off: "offset < 2 ^ 64"
  shows "\<exists>out'. EwiseSetitem a out shape strides offset = Some (Inr out')
           \<and> size_a out' = size_a out
           \<and> (non_overlapping shape strides offset \<longrightarrow>
                (\<forall>idx. in_range shape idx
                  \<longrightarrow> ptr out' (strided_position (length shape) idx strides offset)
                        = ptr a (compact_position shape idx)))
           \<and> (\<forall>j. (\<forall>idx. in_range shape idx \<longrightarrow> strided_position (length shape) idx strides offset \<noteq> j)
                  \<longrightarrow> ptr out' j = ptr out j)"
proof -
  let ?zero = "replicate (length shape) 0"
  have z: "in_range shape ?zero"
    using assms(2) by (rule in_range_zero)
  have c: "0 = nat (row_major shape ?zero (length shape))"
    by (simp add: row_major_zero)
  obtain out' where
    res: "EwiseSetitem_loop a shape strides offset ?zero out 0
            = Some (Inr (out', nat (extent shape (length shape)) - 1))"
    and sz: "size_a out' = size_a out"
    and val: "\<And>idx. non_overlapping shape strides offset \<Longrightarrow> in_range shape idx
                 \<Longrightarrow> row_major shape ?zero (length shape) \<le> row_major shape idx (length shape)
                 \<Longrightarrow> ptr out' (strided_position (length shape) idx strides offset)
                       = ptr a (compact_position shape idx)"
    and frame: "\<And>j. (\<forall>idx. in_range shape idx
                       \<and> row_major shape ?zero (length shape) \<le> row_major shape idx (length shape)
                     \<longrightarrow> strided_position (length shape) idx strides offset \<noteq> j)
                  \<Longrightarrow> ptr out' j = ptr out j"
    using EwiseSetitem_loop_correct [OF fit off z assms(1) c, of a out] by blast
  have "ptr out' (strided_position (length shape) idx strides offset) = ptr a (compact_position shape idx)"
    if "non_overlapping shape strides offset" "in_range shape idx" for idx
    using val [OF that] in_range_bounds(1) [OF that(2)] by (simp add: row_major_zero)
  moreover have "ptr out' j = ptr out j"
    if "\<forall>idx. in_range shape idx \<longrightarrow> strided_position (length shape) idx strides offset \<noteq> j" for j
    using frame [of j] that by blast
  ultimately show ?thesis
    using res sz by (simp add: EwiseSetitem_def)
qed

lemma row_major_append:
  "k \<le> length shape \<Longrightarrow> k \<le> length idx
     \<Longrightarrow> row_major (shape @ ss) (idx @ is) k = row_major shape idx k"
  by (induction k) (simp_all add: nth_append)

lemma in_range_snoc:
  "in_range (shape @ [s]) (idx @ [i]) \<longleftrightarrow> in_range shape idx \<and> 0 \<le> i \<and> i < s"
  by (auto simp: in_range_def nth_append less_Suc_eq)

lemma compact_position_snoc:
  assumes "in_range (shape @ [s]) (idx @ [i])"
  shows "compact_position (shape @ [s]) (idx @ [i]) = compact_position shape idx * nat s + nat i"
proof -
  have r: "in_range shape idx" and i: "0 \<le> i" "i < s"
    using assms by (simp_all add: in_range_snoc)
  have len: "length idx = length shape"
    using r by (simp add: in_range_def)
  have nn: "0 \<le> row_major shape idx (length shape)"
    using in_range_bounds(1) [OF r] .
  have "row_major (shape @ [s]) (idx @ [i]) (Suc (length shape))
          = row_major shape idx (length shape) * s + i"
    using len by (simp add: row_major_append nth_append)
  then show ?thesis
    using nn i by (simp add: compact_position_def nat_add_distrib nat_mult_distrib)
qed

lemma compact_examples:
  "map_option (map_sum id to_list)
     (Compact (from_list 0 [0, 1, 2, 3, 4, 5]) (from_list 0 [9, 9, 9, 9, 9, 9]) [2, 3] [3, 1] 0)
     = Some (Inr [0, 1, 2, 3, 4, 5 :: real])"
  "map_option (map_sum id to_list)
     (Compact (from_list 0 [0, 1, 2, 3, 4, 5]) (from_list 0 [9, 9, 9, 9, 9, 9]) [2, 3] [1, 2] 0)
     = Some (Inr [0, 2, 4, 1, 3, 5 :: real])"
  by (simp_all add: Compact_def Compact_loop.simps position_def int32_t_def to_size_t_def
        to_list_def ptr_from_list upt_rec)

text \<open>
  Claim C8.  Compacting the view of shape \<open>[2, 3]\<close>, strides \<open>[3, 1]\<close> and offset \<open>0\<close> over
  the buffer \<open>[0, 1, 2, 3, 4, 5]\<close> gives \<open>[0, 1, 2, 3, 4, 5]\<close>, and with strides \<open>[1, 2]\<close> it
  gives \<open>[0, 2, 4, 1, 3, 5]\<close>.  In general, for a shape of at least one dimension whose
  extents are all positive, with strides whose products with the indices fit the
  \<^verbatim>\<open>int\<close> they are computed in, \<^verbatim>\<open>Compact\<close> returns without error, and the destination
  then holds at the row-major place of every index vector in range the source element at
  its strided position (the offset plus the sum of the products of index and stride, as a
  \<^verbatim>\<open>size_t\<close>, which is what the loop over the dimensions computes), and is unchanged
  from the product of the extents on.  The row-major place has the last dimension
  varying fastest: the last index counts single cells, and the place of the leading
  indices is scaled by the last extent.
\<close>

theorem compact_row_major_order:
  assumes "shape \<noteq> []" and "list_all (\<lambda>s. 0 < s) shape"
    and "products_fit shape strides" and "offset < 2 ^ 64"
  shows "map_option (map_sum id to_list)
           (Compact (from_list 0 [0, 1, 2, 3, 4, 5]) (from_list 0 [9, 9, 9, 9, 9, 9]) [2, 3] [3, 1] 0)
           = Some (Inr [0, 1, 2, 3, 4, 5 :: real])
    \<and> map_option (map_sum id to_list)
           (Compact (from_list 0 [0, 1, 2, 3, 4, 5]) (from_list 0 [9, 9, 9, 9, 9, 9]) [2, 3] [1, 2] 0)
           = Some (Inr [0, 2, 4, 1, 3, 5 :: real])
    \<and> (\<exists>out'. Compact a out shape strides offset = Some (Inr out')
           \<and> size_a out' = size_a out
           \<and> (\<forall>idx. in_range shape idx
                \<longrightarrow> ptr out' (compact_position shape idx)
                      = ptr a (strided_position (length shape) idx strides offset))
           \<and> (\<forall>j\<ge>nat (prod_list shape). ptr out' j = ptr out j))
    \<and> (\<forall>idx. in_range shape idx
          \<longrightarrow> position (length shape) idx strides offset
                = Inr (strided_position (length shape) idx strides offset))
    \<and> (\<forall>idx i s. in_range (shape @ [s]) (idx @ [i])
          \<longrightarrow> compact_position (shape @ [s]) (idx @ [i])
                = compact_position shape idx * nat s + nat i)"
  using compact_examples Compact_valid [OF assms, of a out]
    position_in_range [OF assms(3,4)]
  by (simp add: compact_position_snoc)

theorem compact_row_major_order_witness:
  "[2, 3] \<noteq> ([] :: int list) \<and> list_all (\<lambda>s. 0 < s) [2, 3 :: int]
   \<and> products_fit [2, 3] [1, 2] \<and> (0 :: nat) < 2 ^ 64 \<and> in_range [2, 3] [1, 2]
   \<and> compact_position [2, 3] [1, 2] = 5 \<and> strided_position 2 [1, 2] [1, 2] 0 = 5
   \<and> (\<exists>out'. Compact (from_list 0 [0, 1, 2, 3, 4, 5 :: real]) (from_list 0 [9, 9, 9, 9, 9, 9])
                 [2, 3] [1, 2] 0 = Some (Inr out')
          \<and> ptr out' 5 = 5)"
proof -
  have h1: "[2, 3] \<noteq> ([] :: int list)" by simp
  have h2: "list_all (\<lambda>s. 0 < s) [2, 3 :: int]" by simp
  have h3: "in_range [2, 3] [1, 2]"
    by (simp add: in_range_def less_Suc_eq numeral_2_eq_2)
  have p: "compact_position [2, 3] [1, 2] = 5"
    by (simp add: compact_position_def numeral_2_eq_2)
  have q: "strided_position 2 [1, 2] [1, 2] 0 = 5"
    by (simp add: strided_position_def numeral_2_eq_2)
  have q': "strided_position (length [2, 3 :: int]) [1, 2] [1, 2] 0 = 5"
    using q by (simp add: numeral_2_eq_2)
  have h4: "products_fit [2, 3] [1, 2]" and h5: "(0 :: nat) < 2 ^ 64"
    by (simp_all add: products_fit_def int32_t_def)
  from compact_row_major_order [OF h1 h2 h4 h5, of "from_list 0 [0, 1, 2, 3, 4, 5 :: real]"
      "from_list 0 [9, 9, 9, 9, 9, 9]"]
  obtain out' where
    "Compact (from_list 0 [0, 1, 2, 3, 4, 5 :: real]) (from_list 0 [9, 9, 9, 9, 9, 9]) [2, 3] [1, 2] 0
       = Some (Inr out')"
    and "\<forall>idx. in_range [2, 3] idx
           \<longrightarrow> ptr out' (compact_position [2, 3] idx)
                 = ptr (from_list 0 [0, 1, 2, 3, 4, 5 :: real])
                     (strided_position (length [2, 3 :: int]) idx [1, 2] 0)"
    by blast
  then have "ptr out' (compact_position [2, 3] [1, 2])
               = ptr (from_list 0 [0, 1, 2, 3, 4, 5 :: real])
                   (strided_position (length [2, 3 :: int]) [1, 2] [1, 2] 0)"
    and "Compact (from_list 0 [0, 1, 2, 3, 4, 5 :: real]) (from_list 0 [9, 9, 9, 9, 9, 9]) [2, 3] [1, 2] 0
       = Some (Inr out')"
    using h3 by blast+
  then show ?thesis
    unfolding p q' using h1 h2 h3 h4 p q by (simp add: ptr_from_list)
qed

text \<open>
  Claim C1.  The round trip of a view of rank \<open>0\<close> (the empty shape vector, a scalar view,
  which overlaps nothing) never returns: \<^verbatim>\<open>Compact\<close> stays in its outer loop, so no
  element is ever written back.
\<close>

theorem round_trip_rank0_never_returns:
  "round_trip a c out [] [] offset = None"
  by (simp add: round_trip_def Compact_rank0)

lemma Compact_loop_rank0: "Compact_loop a [] strides offset index out cnt = None"
  using Compact_loop_returns [of a "[]" strides offset index out cnt] by (cases "Compact_loop a [] strides offset index out cnt") auto

lemma EwiseSetitem_loop_rank0: "EwiseSetitem_loop a [] strides offset index out cnt = None"
  using EwiseSetitem_loop_returns [of a "[]" strides offset index out cnt] by (cases "EwiseSetitem_loop a [] strides offset index out cnt") auto

text \<open>
  Claim C2.  On the empty shape vector the traversals of \<^verbatim>\<open>Compact\<close> and
  \<^verbatim>\<open>EwiseSetitem\<close> never return, while \<^verbatim>\<open>ScalarSetitem\<close> with the count \<open>1\<close> writes
  the one cell at the offset.  On the shape \<open>[0]\<close>, whose product is \<open>0\<close>, the first two
  visit one element (they return with \<open>cnt = 0\<close> after one write, at the position of the
  index \<open>0\<close>, which is the offset), while \<^verbatim>\<open>ScalarSetitem\<close> with the count \<open>0\<close> writes
  nothing.
\<close>

theorem traversal_rank0_and_zero_extent:
  "Compact_loop a [] [] offset [] out 0 = None
   \<and> EwiseSetitem_loop a [] [] offset [] out 0 = None
   \<and> ScalarSetitem 1 val out [] [] offset = Inr (store out offset val)
   \<and> position 1 [0] [1] offset = Inr (offset mod 2 ^ 64)
   \<and> Compact_loop a [0] [1] offset [0] out 0 = Some (Inr (store out 0 (ptr a (offset mod 2 ^ 64)), 0))
   \<and> EwiseSetitem_loop a [0] [1] offset [0] out 0 = Some (Inr (store out (offset mod 2 ^ 64) (ptr a 0), 0))
   \<and> ScalarSetitem 0 val out [0] [1] offset = Inr out"
  by (simp add: Compact_loop_rank0 EwiseSetitem_loop_rank0 ScalarSetitem_def ScalarSetitem_body_def
      position_def int32_t_def to_size_t_def
      Compact_loop.simps [of _ "[0]"] EwiseSetitem_loop.simps [of _ "[0]"])

lemma round_trip_valid:
  assumes "shape \<noteq> []" and "list_all (\<lambda>s. 0 < s) shape"
    and "products_fit shape strides" and "offset < 2 ^ 64"
    and "non_overlapping shape strides offset"
  shows "\<exists>out'. round_trip a c out shape strides offset = Some (Inr out')
           \<and> size_a out' = size_a out
           \<and> (\<forall>idx. in_range shape idx
                \<longrightarrow> ptr out' (strided_position (length shape) idx strides offset)
                      = ptr a (strided_position (length shape) idx strides offset))
           \<and> (\<forall>j. (\<forall>idx. in_range shape idx \<longrightarrow> strided_position (length shape) idx strides offset \<noteq> j)
                  \<longrightarrow> ptr out' j = ptr out j)"
proof -
  obtain c' where c: "Compact a c shape strides offset = Some (Inr c')"
    and cv: "\<And>idx. in_range shape idx
               \<Longrightarrow> ptr c' (compact_position shape idx)
                     = ptr a (strided_position (length shape) idx strides offset)"
    using Compact_valid [OF assms(1-4), of a c] by blast
  obtain out' where o: "EwiseSetitem c' out shape strides offset = Some (Inr out')"
    and sz: "size_a out' = size_a out"
    and ov: "\<And>idx. in_range shape idx
               \<Longrightarrow> ptr out' (strided_position (length shape) idx strides offset)
                     = ptr c' (compact_position shape idx)"
    and frame: "\<And>j. (\<forall>idx. in_range shape idx \<longrightarrow> strided_position (length shape) idx strides offset \<noteq> j)
                  \<Longrightarrow> ptr out' j = ptr out j"
    using EwiseSetitem_valid [OF assms(1-4), of c' out] assms(5) by blast
  show ?thesis
    using c o sz cv ov frame by (simp add: round_trip_def)
qed

lemma in_range_pair:
  "in_range [s0, s1] idx \<longleftrightarrow> (\<exists>i j. idx = [i, j] \<and> 0 \<le> i \<and> i < s0 \<and> 0 \<le> j \<and> j < s1)"
proof
  assume r: "in_range [s0, s1] idx"
  then have "length idx = 2"
    by (simp add: in_range_def)
  then obtain i j where "idx = [i, j]"
    by (metis (no_types) length_0_conv length_Suc_conv numeral_2_eq_2)
  then show "\<exists>i j. idx = [i, j] \<and> 0 \<le> i \<and> i < s0 \<and> 0 \<le> j \<and> j < s1"
    using r by (auto simp: in_range_def less_Suc_eq numeral_2_eq_2 dest: spec [of _ 0] spec [of _ 1])
next
  assume "\<exists>i j. idx = [i, j] \<and> 0 \<le> i \<and> i < s0 \<and> 0 \<le> j \<and> j < s1"
  then show "in_range [s0, s1] idx"
    by (auto simp: in_range_def less_Suc_eq numeral_2_eq_2)
qed

lemma non_overlapping_transposed: "non_overlapping [2, 3] [1, 2] 0"
proof -
  have "i = i' \<and> j = j'"
    if "0 \<le> i" "i < 2" "0 \<le> j" "j < 3" "0 \<le> i'" "i' < 2" "0 \<le> j'" "j' < 3"
      and "strided_position 2 [i, j] [1, 2] 0 = strided_position 2 [i', j'] [1, 2] 0" for i j i' j' :: int
  proof -
    have pos: "strided_position 2 [x, y] [1, 2] 0 = nat (x + 2 * y)"
      if "0 \<le> x" "x < 2" "0 \<le> y" "y < 3" for x y :: int
    proof -
      have "(\<Sum>d<2. [x, y] ! d * [1, 2] ! d) = x + 2 * y"
        by (simp add: numeral_2_eq_2)
      moreover have "(int 0 + (x + 2 * y)) mod 2 ^ 64 = x + 2 * y"
        using that by simp
      ultimately show ?thesis
        by (simp only: strided_position_def)
    qed
    have "nat (i + 2 * j) = nat (i' + 2 * j')"
      using that pos by simp
    then have "i + 2 * j = i' + 2 * j'"
      using that by linarith
    then show ?thesis
      using that by presburger
  qed
  then show ?thesis
    unfolding non_overlapping_def in_range_pair by (auto simp: numeral_2_eq_2)
qed

lemma advance_increment: "advance k index shape = snd (increment k index shape)"
  by (induction k arbitrary: index) (simp_all add: Let_def)

lemma positive_of_prod:
  assumes "list_all (\<lambda>s. 0 \<le> s) shape" "0 < prod_list shape"
  shows "list_all (\<lambda>s. (0::int) < s) shape"
  using assms
proof (induction shape)
  case Nil
  then show ?case by simp
next
  case (Cons s shape)
  then have "0 \<le> s" "list_all (\<lambda>s. 0 \<le> s) shape" "0 < s * prod_list shape"
    by simp_all
  then have "0 < s \<and> 0 < prod_list shape"
    by (metis mult_eq_0_iff less_le zero_less_mult_pos)
  then show ?case
    using Cons by simp
qed

lemma ScalarSetitem_steps:
  assumes "list_all (\<lambda>s. 0 \<le> s) shape" and fit: "products_fit shape strides"
    and off: "offset < 2 ^ 64" and "j \<le> nat (prod_list shape)"
  shows "\<exists>index out'.
           foldl (ScalarSetitem_body val shape strides offset)
             (Inr (replicate (length shape) 0, out)) [0..<j] = Inr (index, out')
         \<and> (j < nat (prod_list shape) \<longrightarrow>
              in_range shape index \<and> row_major shape index (length shape) = int j)
         \<and> size_a out' = size_a out
         \<and> (\<forall>x. ptr out' x
                 = (if \<exists>idx. in_range shape idx \<and> row_major shape idx (length shape) < int j
                          \<and> strided_position (length shape) idx strides offset = x
                    then val else ptr out x))"
  using assms(4)
proof (induction j)
  case 0
  have "in_range shape (replicate (length shape) 0)" if "0 < nat (prod_list shape)"
    using that assms(1) by (intro in_range_zero positive_of_prod) auto
  moreover have "\<not> (in_range shape idx \<and> row_major shape idx (length shape) < 0)" for idx
    using in_range_bounds(1) [of shape idx] by auto
  ultimately show ?case
    by (auto simp: row_major_zero)
next
  case (Suc j)
  let ?n = "length shape"
  have j: "j < nat (prod_list shape)"
    using Suc.prems by simp
  obtain index out0 where
    st: "foldl (ScalarSetitem_body val shape strides offset) (Inr (replicate ?n 0, out)) [0..<j]
           = Inr (index, out0)"
    and ih: "in_range shape index" "row_major shape index ?n = int j" "size_a out0 = size_a out"
    and ihp: "\<And>x. ptr out0 x
      = (if \<exists>idx. in_range shape idx \<and> row_major shape idx ?n < int j
               \<and> strided_position ?n idx strides offset = x
         then val else ptr out x)"
    using Suc.IH j by auto
  let ?index' = "advance ?n index shape"
  let ?out' = "store out0 (strided_position ?n index strides offset) val"
  have step: "foldl (ScalarSetitem_body val shape strides offset) (Inr (replicate ?n 0, out)) [0..<Suc j]
                = Inr (?index', ?out')"
    by (simp add: st ScalarSetitem_body_def position_in_range [OF fit off ih(1)])
  have next_index: "in_range shape ?index' \<and> row_major shape ?index' ?n = int (Suc j)"
    if "Suc j < nat (prod_list shape)"
  proof -
    have more: "row_major shape index ?n + 1 < extent shape ?n"
      using that ih(2) by (simp add: extent_prod_list)
    have "shape \<noteq> []"
      using that by auto
    from in_range_increment(2,3) [OF ih(1) this more] show ?thesis
      using ih(2) by (simp add: advance_increment)
  qed
  have "ptr ?out' x
      = (if \<exists>idx. in_range shape idx \<and> row_major shape idx ?n < int (Suc j)
               \<and> strided_position ?n idx strides offset = x
         then val else ptr out x)" for x
  proof (cases "x = strided_position ?n index strides offset")
    case True
    have "\<exists>idx. in_range shape idx \<and> row_major shape idx ?n < int (Suc j)
               \<and> strided_position ?n idx strides offset = x"
      using ih(1,2) True by (intro exI [of _ index]) simp
    then show ?thesis
      using True by simp
  next
    case False
    have "(\<exists>idx. in_range shape idx \<and> row_major shape idx ?n < int (Suc j)
               \<and> strided_position ?n idx strides offset = x)
          \<longleftrightarrow> (\<exists>idx. in_range shape idx \<and> row_major shape idx ?n < int j
               \<and> strided_position ?n idx strides offset = x)" (is "?l \<longleftrightarrow> ?r")
    proof
      assume ?l
      then obtain idx where idx: "in_range shape idx" "row_major shape idx ?n < int (Suc j)"
        "strided_position ?n idx strides offset = x"
        by blast
      have "row_major shape idx ?n \<noteq> int j"
      proof
        assume "row_major shape idx ?n = int j"
        then have "idx = index"
          using in_range_eqI [OF idx(1) ih(1)] ih(2) by simp
        then show False
          using idx(3) False by simp
      qed
      then show ?r
        using idx by auto
    next
      assume ?r
      then show ?l by auto
    qed
    then show ?thesis
      using False ihp [of x] by simp
  qed
  then show ?case
    unfolding step using next_index ih(3) by simp
qed

lemma in_range_prod:
  assumes "in_range shape idx"
  shows "row_major shape idx (length shape) < prod_list shape"
  using in_range_bounds(2) [OF assms] by (simp add: extent_prod_list)

lemma ScalarSetitem_valid:
  assumes "list_all (\<lambda>s. 0 \<le> s) shape" and "products_fit shape strides" and "offset < 2 ^ 64"
  shows "\<exists>out'. ScalarSetitem (nat (prod_list shape)) val out shape strides offset = Inr out'
           \<and> size_a out' = size_a out
           \<and> (\<forall>x. ptr out' x
                 = (if \<exists>idx. in_range shape idx \<and> strided_position (length shape) idx strides offset = x
                    then val else ptr out x))"
proof -
  have same: "(\<exists>idx. in_range shape idx \<and> row_major shape idx (length shape) < int (nat (prod_list shape))
           \<and> strided_position (length shape) idx strides offset = x)
        \<longleftrightarrow> (\<exists>idx. in_range shape idx \<and> strided_position (length shape) idx strides offset = x)" for x
    using in_range_prod by fastforce
  obtain index out' where
    st: "foldl (ScalarSetitem_body val shape strides offset)
           (Inr (replicate (length shape) 0, out)) [0..<nat (prod_list shape)] = Inr (index, out')"
    and sz: "size_a out' = size_a out"
    and val: "\<And>x. ptr out' x
      = (if \<exists>idx. in_range shape idx \<and> row_major shape idx (length shape) < int (nat (prod_list shape))
               \<and> strided_position (length shape) idx strides offset = x
         then val else ptr out x)"
    using ScalarSetitem_steps [OF assms order_refl, of val out] by blast
  have "ScalarSetitem (nat (prod_list shape)) val out shape strides offset = Inr out'"
    by (simp add: ScalarSetitem_def st)
  then show ?thesis
    using sz val same by simp
qed

text \<open>
  The round trip on the views the traversal handles: for a shape of at least one
  dimension with positive extents and a non-overlapping view whose products fit,
  compacting and scattering back with the same shape, strides and offset returns without
  error, and leaves at the strided position of every index vector in range the source
  element of that position; every other cell of the destination keeps its value.
\<close>

theorem round_trip_restores_view:
  assumes "shape \<noteq> []" and "list_all (\<lambda>s. 0 < s) shape"
    and "products_fit shape strides" and "offset < 2 ^ 64"
    and "non_overlapping shape strides offset"
  shows "\<exists>out'. round_trip a c out shape strides offset = Some (Inr out')
           \<and> size_a out' = size_a out
           \<and> (\<forall>idx. in_range shape idx
                \<longrightarrow> ptr out' (strided_position (length shape) idx strides offset)
                      = ptr a (strided_position (length shape) idx strides offset))
           \<and> (\<forall>j. (\<forall>idx. in_range shape idx \<longrightarrow> strided_position (length shape) idx strides offset \<noteq> j)
                  \<longrightarrow> ptr out' j = ptr out j)"
  using assms by (rule round_trip_valid)

theorem round_trip_restores_view_witness:
  "[2, 3] \<noteq> ([] :: int list) \<and> list_all (\<lambda>s. 0 < s) [2, 3 :: int]
   \<and> products_fit [2, 3] [1, 2] \<and> (0 :: nat) < 2 ^ 64 \<and> non_overlapping [2, 3] [1, 2] 0
   \<and> in_range [2, 3] [1, 2] \<and> strided_position 2 [1, 2] [1, 2] 0 = 5
   \<and> (\<exists>out'. round_trip (from_list 0 [0, 1, 2, 3, 4, 5 :: real]) (from_list 0 [9, 9, 9, 9, 9, 9])
                 (from_list 0 [0, 0, 0, 0, 0, 0]) [2, 3] [1, 2] 0 = Some (Inr out')
          \<and> ptr out' 5 = 5)"
proof -
  have h1: "[2, 3] \<noteq> ([] :: int list)" by simp
  have h2: "list_all (\<lambda>s. 0 < s) [2, 3 :: int]" by simp
  have h3: "in_range [2, 3] [1, 2]"
    by (simp add: in_range_pair)
  have q: "strided_position 2 [1, 2] [1, 2] 0 = 5"
    by (simp add: strided_position_def numeral_2_eq_2)
  have q': "strided_position (length [2, 3 :: int]) [1, 2] [1, 2] 0 = 5"
    using q by (simp add: numeral_2_eq_2)
  have h4: "products_fit [2, 3] [1, 2]" and h5: "(0 :: nat) < 2 ^ 64"
    by (simp_all add: products_fit_def int32_t_def)
  from round_trip_restores_view [OF h1 h2 h4 h5 non_overlapping_transposed,
      of "from_list 0 [0, 1, 2, 3, 4, 5 :: real]" "from_list 0 [9, 9, 9, 9, 9, 9]"
      "from_list 0 [0, 0, 0, 0, 0, 0]"]
  obtain out' where
    "round_trip (from_list 0 [0, 1, 2, 3, 4, 5 :: real]) (from_list 0 [9, 9, 9, 9, 9, 9])
       (from_list 0 [0, 0, 0, 0, 0, 0]) [2, 3] [1, 2] 0 = Some (Inr out')"
    and "\<forall>idx. in_range [2, 3] idx
           \<longrightarrow> ptr out' (strided_position (length [2, 3 :: int]) idx [1, 2] 0)
                 = ptr (from_list 0 [0, 1, 2, 3, 4, 5 :: real])
                     (strided_position (length [2, 3 :: int]) idx [1, 2] 0)"
    by blast
  then have "ptr out' (strided_position (length [2, 3 :: int]) [1, 2] [1, 2] 0)
               = ptr (from_list 0 [0, 1, 2, 3, 4, 5 :: real])
                   (strided_position (length [2, 3 :: int]) [1, 2] [1, 2] 0)"
    and "round_trip (from_list 0 [0, 1, 2, 3, 4, 5 :: real]) (from_list 0 [9, 9, 9, 9, 9, 9])
       (from_list 0 [0, 0, 0, 0, 0, 0]) [2, 3] [1, 2] 0 = Some (Inr out')"
    using h3 by blast+
  then show ?thesis
    unfolding q' using h1 h2 h3 h4 q non_overlapping_transposed by (simp add: ptr_from_list)
qed

text \<open>
  For a shape of at least one dimension with positive extents, and strides whose products
  fit, the loops of \<^verbatim>\<open>Compact\<close> and \<^verbatim>\<open>EwiseSetitem\<close> return with \<open>cnt\<close> one less than the
  product of the extents: they visit exactly that many elements.
\<close>

theorem traversal_visits_product:
  assumes "shape \<noteq> []" and "list_all (\<lambda>s. 0 < s) shape"
    and "products_fit shape strides" and "offset < 2 ^ 64"
  shows "(\<exists>out'. Compact_loop a shape strides offset (replicate (length shape) 0) out 0
                   = Some (Inr (out', nat (prod_list shape) - 1)))
       \<and> (\<exists>out'. EwiseSetitem_loop a shape strides offset (replicate (length shape) 0) out 0
                   = Some (Inr (out', nat (prod_list shape) - 1)))
       \<and> 0 < prod_list shape"
proof -
  let ?zero = "replicate (length shape) 0"
  have z: "in_range shape ?zero"
    using assms(2) by (rule in_range_zero)
  have c: "0 = nat (row_major shape ?zero (length shape))"
    by (simp add: row_major_zero)
  have "0 < prod_list shape"
    using in_range_bounds [OF z] by (simp add: extent_prod_list row_major_zero)
  then show ?thesis
    using Compact_loop_correct [OF assms(3,4) z assms(1) c, of a out]
      EwiseSetitem_loop_correct [OF assms(3,4) z assms(1) c, of a out]
    by (auto simp: extent_prod_list)
qed

theorem traversal_visits_product_witness:
  "[2, 3] \<noteq> ([] :: int list) \<and> list_all (\<lambda>s. 0 < s) [2, 3 :: int]
   \<and> products_fit [2, 3] [1, 2] \<and> (0 :: nat) < 2 ^ 64
   \<and> (\<exists>out'. Compact_loop (from_list 0 [0, 1, 2, 3, 4, 5 :: real]) [2, 3] [1, 2] 0 [0, 0]
                 (from_list 0 [9, 9, 9, 9, 9, 9]) 0 = Some (Inr (out', 5)))"
proof -
  have h1: "[2, 3] \<noteq> ([] :: int list)" by simp
  have h2: "list_all (\<lambda>s. 0 < s) [2, 3 :: int]" by simp
  have h4: "products_fit [2, 3] [1, 2]" and h5: "(0 :: nat) < 2 ^ 64"
    by (simp_all add: products_fit_def int32_t_def)
  show ?thesis
    using traversal_visits_product [OF h1 h2 h4 h5, of "from_list 0 [0, 1, 2, 3, 4, 5 :: real]"
        "from_list 0 [9, 9, 9, 9, 9, 9]"] h4
    by (simp add: numeral_2_eq_2)
qed

text \<open>
  \<^verbatim>\<open>ScalarSetitem\<close>, called with the product of the extents as its count, returns without
  error and writes the value at the strided position of every index vector in range and
  nowhere else, for every shape with non-negative extents, the empty shape included, and
  strides whose products fit.
\<close>

theorem ScalarSetitem_fills_view:
  assumes "list_all (\<lambda>s. 0 \<le> s) shape" and "products_fit shape strides" and "offset < 2 ^ 64"
  shows "\<exists>out'. ScalarSetitem (nat (prod_list shape)) val out shape strides offset = Inr out'
           \<and> size_a out' = size_a out
           \<and> (\<forall>x. ptr out' x
                 = (if \<exists>idx. in_range shape idx \<and> strided_position (length shape) idx strides offset = x
                    then val else ptr out x))"
  using assms by (rule ScalarSetitem_valid)

theorem ScalarSetitem_fills_view_witness:
  "list_all (\<lambda>s. 0 \<le> s) [2, 3 :: int] \<and> products_fit [2, 3] [1, 2] \<and> (0 :: nat) < 2 ^ 64
   \<and> in_range [2, 3] [1, 2] \<and> strided_position 2 [1, 2] [1, 2] 0 = 5
   \<and> (\<exists>out'. ScalarSetitem 6 7 (from_list 0 [0, 0, 0, 0, 0, 0 :: real]) [2, 3] [1, 2] 0 = Inr out'
         \<and> ptr out' 5 = 7)
   \<and> list_all (\<lambda>s. 0 \<le> s) ([] :: int list) \<and> products_fit [] [] \<and> (2 :: nat) < 2 ^ 64
   \<and> (\<exists>out'. ScalarSetitem 1 7 (from_list 0 [0, 0, 0 :: real]) [] [] 2 = Inr out'
         \<and> ptr out' 2 = 7)"
proof -
  have h: "list_all (\<lambda>s. 0 \<le> s) [2, 3 :: int]" by simp
  have h0: "list_all (\<lambda>s. 0 \<le> s) ([] :: int list)" by simp
  have f: "products_fit [2, 3] [1, 2]" and f0: "products_fit [] []"
    by (simp_all add: products_fit_def int32_t_def)
  have o: "(0 :: nat) < 2 ^ 64" and o2: "(2 :: nat) < 2 ^ 64" by simp_all
  have h3: "in_range [2, 3] [1, 2]"
    by (simp add: in_range_pair)
  have q: "strided_position 2 [1, 2] [1, 2] 0 = 5"
    by (simp add: strided_position_def numeral_2_eq_2)
  have q': "strided_position (length [2, 3 :: int]) [1, 2] [1, 2] 0 = 5"
    using q by (simp add: numeral_2_eq_2)
  have e: "\<exists>idx. in_range [2, 3] idx \<and> strided_position (length [2, 3 :: int]) idx [1, 2] 0 = 5"
    using h3 q' by blast
  have e0: "\<exists>idx. in_range [] idx \<and> strided_position (length ([] :: int list)) idx [] 2 = 2"
    by (intro exI [of _ "[]"]) (simp add: in_range_def strided_position_def)
  from ScalarSetitem_fills_view [OF h f o, of 7 "from_list 0 [0, 0, 0, 0, 0, 0 :: real]"] e
  have a: "\<exists>out'. ScalarSetitem 6 7 (from_list 0 [0, 0, 0, 0, 0, 0 :: real]) [2, 3] [1, 2] 0 = Inr out'
         \<and> ptr out' 5 = 7"
    by auto
  from ScalarSetitem_fills_view [OF h0 f0 o2, of 7 "from_list 0 [0, 0, 0 :: real]"] e0
  have b: "\<exists>out'. ScalarSetitem 1 7 (from_list 0 [0, 0, 0 :: real]) [] [] 2 = Inr out'
         \<and> ptr out' 2 = 7"
    by auto
  show ?thesis
    using a b h3 q f f0 by simp
qed

section \<open>Matrix multiplication: the naive and the tiled product\<close>

lemma store_store [simp]: "store (store out c v) c w = store out c w"
  by (simp add: store_def)

lemma store_same [simp]: "store out c (ptr out c) = out"
  by (simp add: store_def)

lemma foldl_accumulate:
  "foldl (\<lambda>out k. store out c (ptr out c + g k)) out ks
     = store out c (foldl (\<lambda>s k. s + g k) (ptr out c) ks)"
  by (induction ks arbitrary: out) simp_all

lemma foldl_product:
  "foldl (\<lambda>out i. foldl (\<lambda>out j. f out i j) out js) out is
     = foldl (\<lambda>out (i, j). f out i j) out (List.product is js)"
  by (induction "is" arbitrary: out) (simp_all add: foldl_map)

lemma foldl_store_frame:
  assumes "\<And>t. t \<in> set ts \<Longrightarrow> c t \<noteq> x"
  shows "ptr (foldl (\<lambda>out t. store out (c t) (v t)) out ts) x = ptr out x"
  using assms by (induction ts arbitrary: out) auto

lemma foldl_store_inj:
  assumes "inj_on c (set ts)" and "t \<in> set ts"
  shows "ptr (foldl (\<lambda>out t. store out (c t) (v t)) out ts) (c t) = v t"
  using assms
proof (induction ts arbitrary: out rule: rev_induct)
  case Nil
  then show ?case by simp
next
  case (snoc t' ts)
  show ?case
  proof (cases "t = t'")
    case True
    then show ?thesis by simp
  next
    case False
    then have "t \<in> set ts" and "c t \<noteq> c t'"
      using snoc.prems by (auto simp: inj_on_def)
    moreover have "inj_on c (set ts)"
      using snoc.prems(1) by (simp add: inj_on_def)
    ultimately show ?thesis
      using snoc.IH by simp
  qed
qed

lemma Matmul_flat:
  "Matmul a b out m n p =
     foldl (\<lambda>out t. store out (u32 (fst t * p + snd t))
              (foldl (\<lambda>s k. s + ptr a (u32 (fst t * n + k)) * ptr b (u32 (k * p + snd t))) 0 [0..<n]))
       out (List.product [0..<m] [0..<p])"
  by (simp add: Matmul_def foldl_accumulate foldl_product split_def)

lemma Matmul_frame:
  assumes "2 ^ 32 \<le> x"
  shows "ptr (Matmul a b out m n p) x = ptr out x"
proof -
  have "u32 y \<noteq> x" for y
  proof -
    have "y mod 2 ^ 32 < (2 ^ 32 :: nat)"
      by simp
    then show ?thesis
      using assms unfolding u32_def by linarith
  qed
  then show ?thesis
    unfolding Matmul_flat by (intro foldl_store_frame) simp
qed

lemma u32_id: "x < 2 ^ 32 \<Longrightarrow> u32 x = x"
  by (simp add: u32_def)

lemma cell_less:
  fixes i j m p :: nat
  assumes "i < m" "j < p"
  shows "i * p + j < m * p"
proof -
  have "i * p + j < Suc i * p"
    using assms by simp
  also have "\<dots> \<le> m * p"
    using assms by (intro mult_le_mono1) simp
  finally show ?thesis .
qed

lemma cell_inj:
  fixes i j i' j' p :: nat
  assumes "j < p" "j' < p" "i * p + j = i' * p + j'"
  shows "i = i' \<and> j = j'"
proof -
  have "(i * p + j) div p = i" and "(i' * p + j') div p = i'"
    using assms(1,2) by simp_all
  then have "i = i'"
    by (simp only: assms(3))
  then show ?thesis
    using assms(3) by simp
qed

lemma Matmul_cell:
  assumes "m * n \<le> 2 ^ 32" "n * p \<le> 2 ^ 32" "m * p \<le> 2 ^ 32" and "i < m" "j < p"
  shows "ptr (Matmul a b out m n p) (i * p + j) = row_times_column a b n p i j"
proof -
  let ?c = "\<lambda>t. u32 (fst t * p + snd t)"
  let ?v = "\<lambda>t. foldl (\<lambda>s k. s + ptr a (u32 (fst t * n + k)) * ptr b (u32 (k * p + snd t))) 0 [0..<n]"
  let ?ts = "List.product [0..<m] [0..<p]"
  have c: "?c t = fst t * p + snd t" if "t \<in> set ?ts" for t
  proof -
    have "fst t * p + snd t < m * p"
      using that by (intro cell_less) auto
    then show ?thesis
      using assms(3) by (intro u32_id) simp
  qed
  have inj: "inj_on ?c (set ?ts)"
  proof (rule inj_onI)
    fix t t' assume t: "t \<in> set ?ts" "t' \<in> set ?ts" and "?c t = ?c t'"
    then have "fst t * p + snd t = fst t' * p + snd t'"
      using c by simp
    moreover have "snd t < p" "snd t' < p"
      using t by auto
    ultimately have "fst t = fst t' \<and> snd t = snd t'"
      by (intro cell_inj)
    then show "t = t'"
      by (simp add: prod_eq_iff)
  qed
  have t: "(i, j) \<in> set ?ts"
    using assms(4,5) by simp
  have "ptr (Matmul a b out m n p) (?c (i, j)) = ?v (i, j)"
    unfolding Matmul_flat using inj t by (rule foldl_store_inj)
  moreover have "?v (i, j) = row_times_column a b n p i j"
    unfolding row_times_column_def
  proof (rule foldl_cong [OF refl refl])
    fix s k assume "k \<in> set [0..<n]"
    then have k: "k < n" by simp
    have "i * n + k < m * n" "k * p + j < n * p"
      using assms(4,5) k by (auto intro: cell_less)
    then have "u32 (i * n + k) = i * n + k" "u32 (k * p + j) = k * p + j"
      using assms(1,2) by (auto intro: u32_id)
    then show "s + ptr a (u32 (fst (i, j) * n + k)) * ptr b (u32 (k * p + snd (i, j)))
                 = s + ptr a (i * n + k) * ptr b (k * p + j)"
      by simp
  qed
  ultimately show ?thesis
    using c [OF t] by simp
qed

text \<open>
  Within 32 bits the naive product is right: for sizes with \<open>m * n\<close>, \<open>n * p\<close> and \<open>m * p\<close>
  at most \<open>2^32\<close>, \<^verbatim>\<open>Matmul\<close> leaves in the cell \<open>i * p + j\<close> of the output, for every
  \<open>i < m\<close> and \<open>j < p\<close>, the sum of the products \<open>a[i,k] * b[k,j]\<close> taken left to right
  from \<open>0\<close>; the value does not depend on what the output held before.
\<close>

theorem Matmul_row_times_column:
  assumes "m * n \<le> 2 ^ 32" "n * p \<le> 2 ^ 32" "m * p \<le> 2 ^ 32" and "i < m" "j < p"
  shows "ptr (Matmul a b out m n p) (i * p + j) = row_times_column a b n p i j
       \<and> ptr (Matmul a b out m n p) (i * p + j) = ptr (Matmul a b out' m n p) (i * p + j)"
proof -
  have "ptr (Matmul a b out m n p) (i * p + j) = row_times_column a b n p i j"
    using assms by (rule Matmul_cell)
  moreover have "ptr (Matmul a b out' m n p) (i * p + j) = row_times_column a b n p i j"
    using assms by (rule Matmul_cell)
  ultimately show ?thesis
    by simp
qed

theorem Matmul_row_times_column_witness:
  "(2::nat) * 2 \<le> 2 ^ 32 \<and> (1::nat) < 2 \<and> (0::nat) < 2
   \<and> ptr (Matmul (from_list 0 [1, 2, 3, 4]) (from_list 0 [5, 6, 7, 8])
             (from_list 0 [9, 9, 9, 9 :: real]) 2 2 2) 2 = 43"
proof -
  have h: "(2::nat) * 2 \<le> 2 ^ 32" by simp
  have i: "(1::nat) < 2" and j: "(0::nat) < 2" by simp_all
  show ?thesis
    using Matmul_row_times_column [OF h h h i j, of "from_list 0 [1, 2, 3, 4]"
        "from_list 0 [5, 6, 7, 8]" "from_list 0 [9, 9, 9, 9 :: real]"]
    by (simp add: row_times_column_def ptr_from_list upt_rec)
qed

text \<open>
  Claim C4.  The sizes \<open>m\<close>, \<open>n\<close>, \<open>p\<close> and the counters of \<^verbatim>\<open>Matmul\<close> are
  \<^verbatim>\<open>uint32_t\<close>, and so are its index expressions, while the output of an \<open>m \<times> p\<close>
  product may have more than \<open>2^32\<close> cells.  With \<open>m = 2\<close>, \<open>n = 0\<close> and \<open>p = 2^31 + 1\<close>
  the index of the cell \<open>(1, 2^31 - 1)\<close> is \<open>2^32\<close>, which \<^verbatim>\<open>Matmul\<close> computes as \<open>0\<close>:
  the cell \<open>2^32\<close> of the output keeps the value \<open>1\<close> it held before the call, where
  the (empty) sum of the products is \<open>0\<close>.
\<close>

theorem Matmul_wraps_at_32_bits:
  "ptr (Matmul (filled 0 0) (filled 0 0) (filled (1::real) 4294967298) 2 0 2147483649)
       (1 * 2147483649 + 2147483647)
     \<noteq> row_times_column (filled 0 0) (filled 0 0) 0 2147483649 1 2147483647"
proof -
  have "ptr (Matmul (filled 0 0) (filled 0 0) (filled (1::real) 4294967298) 2 0 2147483649)
          4294967296 = ptr (filled (1::real) 4294967298) 4294967296"
    by (rule Matmul_frame) simp
  then show ?thesis
    by (simp add: row_times_column_def filled_def)
qed

lemma foldl_unchanged:
  assumes "\<And>t out. t \<in> set ts \<Longrightarrow> ptr (F out t) x = ptr out x"
  shows "ptr (foldl F out ts) x = ptr out x"
  using assms by (induction ts arbitrary: out) simp_all

lemma foldl_select:
  fixes d :: "'a::semigroup_add"
  assumes "distinct ts" and "t0 \<in> set ts"
    and other: "\<And>t out. t \<in> set ts \<Longrightarrow> t \<noteq> t0 \<Longrightarrow> ptr (F out t) x = ptr out x"
    and hit: "\<And>out. ptr (F out t0) x = ptr out x + d"
  shows "ptr (foldl F out ts) x = ptr out x + d"
  using assms(1,2,3)
proof (induction ts arbitrary: out)
  case Nil
  then show ?case by simp
next
  case (Cons t ts)
  show ?case
  proof (cases "t = t0")
    case True
    have "ptr (foldl F (F out t0) ts) x = ptr (F out t0) x"
      using Cons.prems True by (intro foldl_unchanged) auto
    then show ?thesis
      using True hit by simp
  next
    case False
    then have "ptr (foldl F (F out t) ts) x = ptr (F out t) x + d"
      using Cons.prems by (intro Cons.IH) auto
    moreover have "ptr (F out t) x = ptr out x"
      using False Cons.prems by simp
    ultimately show ?thesis by simp
  qed
qed

lemma foldl_accumulate_sum:
  fixes d :: "'t \<Rightarrow> 'a::comm_monoid_add"
  assumes "\<And>t out. t \<in> set ts \<Longrightarrow> ptr (F out t) x = ptr out x + d t"
  shows "ptr (foldl F out ts) x = ptr out x + sum_list (map d ts)"
  using assms by (induction ts arbitrary: out) (simp_all add: add.assoc)

lemma size_a_foldl:
  assumes "\<And>t out. size_a (F out t) = size_a out"
  shows "size_a (foldl F out ts) = size_a out"
  using assms by (induction ts arbitrary: out) simp_all

lemma size_a_AlignedDot [simp]: "size_a (AlignedDot a a0 b b0 out o0) = size_a out"
  unfolding AlignedDot_def by (intro size_a_foldl) simp

lemma TILE_pos [simp]: "0 < TILE"
  by (simp add: TILE_def)

lemma AlignedDot_frame:
  assumes "x < out_tile \<or> out_tile + TILE * TILE \<le> x"
  shows "ptr (AlignedDot a a_tile b b_tile out out_tile) x = ptr out x"
  unfolding AlignedDot_def
proof (intro foldl_unchanged)
  fix i j k :: nat and out' :: "'a AlignedArray"
  assume "i \<in> set [0..<TILE]" "j \<in> set [0..<TILE]"
  then have "i * TILE + j < TILE * TILE"
    by (intro cell_less) auto
  then have "out_tile + (i * TILE + j) \<noteq> x"
    using assms by auto
  then show "ptr (store out' (out_tile + (i * TILE + j))
                (ptr out' (out_tile + (i * TILE + j))
                   + ptr a (a_tile + (i * TILE + k)) * ptr b (b_tile + (k * TILE + j)))) x
             = ptr out' x"
    by simp
qed

lemma AlignedDot_cell:
  fixes a b out :: "('a::semiring_0) AlignedArray"
  assumes "i0 < TILE" "j0 < TILE"
  shows "ptr (AlignedDot a a_tile b b_tile out out_tile) (out_tile + (i0 * TILE + j0))
           = ptr out (out_tile + (i0 * TILE + j0))
             + (\<Sum>k\<leftarrow>[0..<TILE]. ptr a (a_tile + (i0 * TILE + k)) * ptr b (b_tile + (k * TILE + j0)))"
  unfolding AlignedDot_def
proof (rule foldl_select [where ?t0.0 = i0])
  show "distinct [0..<TILE]" "i0 \<in> set [0..<TILE]"
    using assms by simp_all
next
  fix i :: nat and out' :: "'a AlignedArray"
  assume i: "i \<in> set [0..<TILE]" "i \<noteq> i0"
  show "ptr (foldl (\<lambda>out j. foldl (\<lambda>out k.
            store out (out_tile + (i * TILE + j))
              (ptr out (out_tile + (i * TILE + j))
                 + ptr a (a_tile + (i * TILE + k)) * ptr b (b_tile + (k * TILE + j))))
          out [0..<TILE]) out' [0..<TILE]) (out_tile + (i0 * TILE + j0))
        = ptr out' (out_tile + (i0 * TILE + j0))"
  proof (intro foldl_unchanged)
    fix j k :: nat and out'' :: "'a AlignedArray"
    assume "j \<in> set [0..<TILE]"
    then have "i * TILE + j \<noteq> i0 * TILE + j0"
      using cell_inj [of j TILE j0 i i0] assms(2) i(2) by auto
    then show "ptr (store out'' (out_tile + (i * TILE + j))
                (ptr out'' (out_tile + (i * TILE + j))
                   + ptr a (a_tile + (i * TILE + k)) * ptr b (b_tile + (k * TILE + j))))
                (out_tile + (i0 * TILE + j0))
             = ptr out'' (out_tile + (i0 * TILE + j0))"
      by simp
  qed
next
  fix out' :: "'a AlignedArray"
  show "ptr (foldl (\<lambda>out j. foldl (\<lambda>out k.
            store out (out_tile + (i0 * TILE + j))
              (ptr out (out_tile + (i0 * TILE + j))
                 + ptr a (a_tile + (i0 * TILE + k)) * ptr b (b_tile + (k * TILE + j))))
          out [0..<TILE]) out' [0..<TILE]) (out_tile + (i0 * TILE + j0))
        = ptr out' (out_tile + (i0 * TILE + j0))
          + (\<Sum>k\<leftarrow>[0..<TILE]. ptr a (a_tile + (i0 * TILE + k)) * ptr b (b_tile + (k * TILE + j0)))"
  proof (rule foldl_select [where ?t0.0 = j0])
    show "distinct [0..<TILE]" "j0 \<in> set [0..<TILE]"
      using assms by simp_all
  next
    fix j :: nat and out'' :: "'a AlignedArray"
    assume j: "j \<in> set [0..<TILE]" "j \<noteq> j0"
    show "ptr (foldl (\<lambda>out k.
            store out (out_tile + (i0 * TILE + j))
              (ptr out (out_tile + (i0 * TILE + j))
                 + ptr a (a_tile + (i0 * TILE + k)) * ptr b (b_tile + (k * TILE + j))))
          out'' [0..<TILE]) (out_tile + (i0 * TILE + j0))
        = ptr out'' (out_tile + (i0 * TILE + j0))"
      using j(2) by (intro foldl_unchanged) simp
  next
    fix out'' :: "'a AlignedArray"
    show "ptr (foldl (\<lambda>out k.
            store out (out_tile + (i0 * TILE + j0))
              (ptr out (out_tile + (i0 * TILE + j0))
                 + ptr a (a_tile + (i0 * TILE + k)) * ptr b (b_tile + (k * TILE + j0))))
          out'' [0..<TILE]) (out_tile + (i0 * TILE + j0))
        = ptr out'' (out_tile + (i0 * TILE + j0))
          + (\<Sum>k\<leftarrow>[0..<TILE]. ptr a (a_tile + (i0 * TILE + k)) * ptr b (b_tile + (k * TILE + j0)))"
      by (rule foldl_accumulate_sum) simp
  qed
qed

lemma tile_starts_mult: "tile_starts (M * TILE) = map (\<lambda>t. t * TILE) [0..<M]"
proof -
  have "(M * TILE + TILE - 1) div TILE = M"
    unfolding TILE_def by presburger
  then show ?thesis
    by (simp add: tile_starts_def)
qed

lemma set_tile_starts:
  assumes "TILE dvd m"
  shows "set (tile_starts m) = {i. i < m \<and> TILE dvd i}"
proof -
  obtain M where m: "m = M * TILE"
    using assms by (auto simp: dvd_def mult.commute)
  show ?thesis
    unfolding m tile_starts_mult
    by (auto simp: dvd_def mult.commute image_iff) 
qed

lemma MatmulTiled_tiles:
  assumes "Fill out 0 = Inr out0"
  shows "MatmulTiled a b out (M * TILE) (N * TILE) (P * TILE) =
          Inr (foldl (\<lambda>out I.
                 foldl (\<lambda>out J.
                   foldl (\<lambda>out K.
                       AlignedDot a (I * TILE * (N * TILE) + K * TILE * TILE)
                                  b (K * TILE * (P * TILE) + J * TILE * TILE)
                                  out (I * TILE * (P * TILE) + J * TILE * TILE))
                     out [0..<N])
                   out [0..<P])
                 out0 [0..<M])"
  by (simp add: MatmulTiled_def assms tile_starts_mult foldl_map)

lemma block_base: "I * TILE * (P * TILE) + J * TILE * TILE = (I * P + J) * (TILE * TILE)"
  by (simp add: algebra_simps)

lemma block_disjoint:
  fixes q q0 e s :: nat
  assumes "q \<noteq> q0" "e < s"
  shows "q0 * s + e < q * s \<or> q * s + s \<le> q0 * s + e"
proof (cases "q < q0")
  case True
  then have "Suc q * s \<le> q0 * s"
    by (intro mult_le_mono1) simp
  then show ?thesis by simp
next
  case False
  then have "Suc q0 * s \<le> q * s"
    using assms(1) by (intro mult_le_mono1) simp
  then show ?thesis
    using assms(2) by simp
qed

lemma AlignedDot_other_block:
  assumes "I * P + J \<noteq> I0 * P + J0" "e < TILE * TILE"
  shows "ptr (AlignedDot a a_tile b b_tile out (I * TILE * (P * TILE) + J * TILE * TILE))
           (I0 * TILE * (P * TILE) + J0 * TILE * TILE + e)
         = ptr out (I0 * TILE * (P * TILE) + J0 * TILE * TILE + e)"
  unfolding block_base
  using block_disjoint [OF assms] by (intro AlignedDot_frame) 

lemma tiles_block_cell:
  fixes a b out :: "('a::semiring_0) AlignedArray"
  assumes "I0 < M" "J0 < P" "i0 < TILE" "j0 < TILE"
  shows "ptr (foldl (\<lambda>out I.
                 foldl (\<lambda>out J.
                   foldl (\<lambda>out K.
                       AlignedDot a (I * TILE * (N * TILE) + K * TILE * TILE)
                                  b (K * TILE * (P * TILE) + J * TILE * TILE)
                                  out (I * TILE * (P * TILE) + J * TILE * TILE))
                     out [0..<N])
                   out [0..<P])
                 out [0..<M])
           (I0 * TILE * (P * TILE) + J0 * TILE * TILE + (i0 * TILE + j0))
         = ptr out (I0 * TILE * (P * TILE) + J0 * TILE * TILE + (i0 * TILE + j0))
           + (\<Sum>K\<leftarrow>[0..<N]. \<Sum>k\<leftarrow>[0..<TILE].
              ptr a (I0 * TILE * (N * TILE) + K * TILE * TILE + (i0 * TILE + k))
                * ptr b (K * TILE * (P * TILE) + J0 * TILE * TILE + (k * TILE + j0)))"
proof -
  let ?x = "I0 * TILE * (P * TILE) + J0 * TILE * TILE + (i0 * TILE + j0)"
  let ?d = "\<lambda>K. \<Sum>k\<leftarrow>[0..<TILE].
              ptr a (I0 * TILE * (N * TILE) + K * TILE * TILE + (i0 * TILE + k))
                * ptr b (K * TILE * (P * TILE) + J0 * TILE * TILE + (k * TILE + j0))"
  have e: "i0 * TILE + j0 < TILE * TILE"
    using assms(3,4) by (intro cell_less)
  show ?thesis
  proof (rule foldl_select [where ?t0.0 = I0])
    show "distinct [0..<M]" "I0 \<in> set [0..<M]"
      using assms(1) by simp_all
  next
    fix I :: nat and out' :: "'a AlignedArray"
    assume I: "I \<in> set [0..<M]" "I \<noteq> I0"
    show "ptr (foldl (\<lambda>out J. foldl (\<lambda>out K.
             AlignedDot a (I * TILE * (N * TILE) + K * TILE * TILE)
                        b (K * TILE * (P * TILE) + J * TILE * TILE)
                        out (I * TILE * (P * TILE) + J * TILE * TILE))
           out [0..<N]) out' [0..<P]) ?x = ptr out' ?x"
    proof (intro foldl_unchanged AlignedDot_other_block e)
      fix J assume "J \<in> set [0..<P]"
      then show "I * P + J \<noteq> I0 * P + J0"
        using cell_inj [of J P J0 I I0] assms(2) I(2) by auto
    qed
  next
    fix out' :: "'a AlignedArray"
    show "ptr (foldl (\<lambda>out J. foldl (\<lambda>out K.
             AlignedDot a (I0 * TILE * (N * TILE) + K * TILE * TILE)
                        b (K * TILE * (P * TILE) + J * TILE * TILE)
                        out (I0 * TILE * (P * TILE) + J * TILE * TILE))
           out [0..<N]) out' [0..<P]) ?x = ptr out' ?x + sum_list (map ?d [0..<N])"
    proof (rule foldl_select [where ?t0.0 = J0])
      show "distinct [0..<P]" "J0 \<in> set [0..<P]"
        using assms(2) by simp_all
    next
      fix J :: nat and out'' :: "'a AlignedArray"
      assume J: "J \<in> set [0..<P]" "J \<noteq> J0"
      show "ptr (foldl (\<lambda>out K.
             AlignedDot a (I0 * TILE * (N * TILE) + K * TILE * TILE)
                        b (K * TILE * (P * TILE) + J * TILE * TILE)
                        out (I0 * TILE * (P * TILE) + J * TILE * TILE))
           out'' [0..<N]) ?x = ptr out'' ?x"
        using J(2) by (intro foldl_unchanged AlignedDot_other_block e) simp
    next
      fix out'' :: "'a AlignedArray"
      show "ptr (foldl (\<lambda>out K.
             AlignedDot a (I0 * TILE * (N * TILE) + K * TILE * TILE)
                        b (K * TILE * (P * TILE) + J0 * TILE * TILE)
                        out (I0 * TILE * (P * TILE) + J0 * TILE * TILE))
           out'' [0..<N]) ?x = ptr out'' ?x + sum_list (map ?d [0..<N])"
        by (rule foldl_accumulate_sum) (rule AlignedDot_cell [OF assms(3,4)])
    qed
  qed
qed

lemma size_a_tiles:
  "size_a (foldl (\<lambda>out I.
                 foldl (\<lambda>out J.
                   foldl (\<lambda>out K. AlignedDot a (fa I K) b (fb K J) out (fo I J)) out ns)
                   out ps)
                 out ms) = size_a out"
  by (intro size_a_foldl) simp

lemma MatmulTiled_block_cell:
  fixes a b out :: "('a::semiring_0) AlignedArray"
  assumes "I0 < M" "J0 < P" "i0 < TILE" "j0 < TILE" and "M * TILE * (P * TILE) \<le> size_a out"
    and "size_a out \<le> INT_MAX"
  shows "\<exists>out'. MatmulTiled a b out (M * TILE) (N * TILE) (P * TILE) = Inr out'
         \<and> size_a out' = size_a out
         \<and> ptr out' (I0 * TILE * (P * TILE) + J0 * TILE * TILE + (i0 * TILE + j0))
             = (\<Sum>K\<leftarrow>[0..<N]. \<Sum>k\<leftarrow>[0..<TILE].
                  ptr a (I0 * TILE * (N * TILE) + K * TILE * TILE + (i0 * TILE + k))
                    * ptr b (K * TILE * (P * TILE) + J0 * TILE * TILE + (k * TILE + j0)))"
proof -
  let ?x = "I0 * TILE * (P * TILE) + J0 * TILE * TILE + (i0 * TILE + j0)"
  obtain out0 where fill: "Fill out 0 = Inr out0" and sz0: "size_a out0 = size_a out"
    and val0: "\<And>i. ptr out0 i = (if i < size_a out then 0 else ptr out i)"
    using Fill_fills [OF assms(6), of 0] by blast
  have e: "i0 * TILE + j0 < TILE * TILE"
    using assms(3,4) by (intro cell_less)
  have "?x = (I0 * P + J0) * (TILE * TILE) + (i0 * TILE + j0)"
    by (simp add: block_base)
  also have "\<dots> < Suc (I0 * P + J0) * (TILE * TILE)"
    using e by simp
  also have "\<dots> \<le> (M * P) * (TILE * TILE)"
    using cell_less [OF assms(1,2)] by (intro mult_le_mono1) simp
  also have "\<dots> = M * TILE * (P * TILE)"
    by (simp add: algebra_simps)
  finally have "?x < size_a out"
    using assms(5) by simp
  then have zero: "ptr out0 ?x = 0"
    by (simp add: val0)
  show ?thesis
    unfolding MatmulTiled_tiles [OF fill]
    using tiles_block_cell [OF assms(1-4), of a N b out0] zero sz0
    by (simp add: size_a_tiles)
qed

lemma tiled_index_block:
  assumes "i < TILE" "j < TILE"
  shows "tiled_index (P * TILE) (I * TILE + i) (J * TILE + j)
           = I * TILE * (P * TILE) + J * TILE * TILE + (i * TILE + j)"
  using assms by (simp add: tiled_index_def algebra_simps)

lemma tiled_index_split:
  "tiled_index (P * TILE) r c
     = (r div TILE) * TILE * (P * TILE) + (c div TILE) * TILE * TILE + ((r mod TILE) * TILE + c mod TILE)"
  using tiled_index_block [of "r mod TILE" "c mod TILE" P "r div TILE" "c div TILE"]
  by simp

lemma sum_list_upt: "(\<Sum>k\<leftarrow>[0..<n]. f k) = (\<Sum>k<n. f k)"
  by (simp add: interv_sum_list_conv_sum_set_nat atLeast0LessThan)

lemma sum_blocks:
  fixes f :: "nat \<Rightarrow> 'a::comm_monoid_add"
  shows "(\<Sum>K\<leftarrow>[0..<N]. \<Sum>k\<leftarrow>[0..<t]. f (K * t + k)) = (\<Sum>k<N * t. f k)"
proof -
  have "(\<Sum>k<t. f (K * t + k)) = sum f {K * t..<K * t + t}" for K
    using sum.shift_bounds_nat_ivl [of f 0 "K * t" t] by (simp add: atLeast0LessThan add.commute)
  then have "(\<Sum>K\<leftarrow>[0..<N]. \<Sum>k\<leftarrow>[0..<t]. f (K * t + k)) = (\<Sum>K<N. sum f {K * t..<K * t + t})"
    by (simp add: sum_list_upt)
  also have "\<dots> = sum f {..<N * t}"
    by (rule sum.nat_group)
  finally show ?thesis .
qed

lemma foldl_plus_sum:
  fixes f :: "nat \<Rightarrow> 'a::comm_monoid_add"
  shows "foldl (\<lambda>s k. s + f k) z ks = z + sum_list (map f ks)"
  by (induction ks arbitrary: z) (simp_all add: add.assoc)

lemma row_times_column_sum:
  fixes a b :: "('a::semiring_0) AlignedArray"
  shows "row_times_column a b n p i j = (\<Sum>k<n. ptr a (i * n + k) * ptr b (k * p + j))"
  by (simp add: row_times_column_def foldl_plus_sum sum_list_upt)

lemma MatmulTiled_cell:
  fixes a b out :: "('a::semiring_0) AlignedArray"
  assumes "TILE dvd m" "TILE dvd n" "TILE dvd p" and "m * p \<le> size_a out"
    and "size_a out \<le> INT_MAX" and "r < m" "c < p"
  shows "\<exists>out'. MatmulTiled a b out m n p = Inr out' \<and> size_a out' = size_a out
           \<and> ptr out' (tiled_index p r c)
               = (\<Sum>k<n. ptr a (tiled_index n r k) * ptr b (tiled_index p k c))"
proof -
  obtain M N P where m: "m = M * TILE" and n: "n = N * TILE" and p: "p = P * TILE"
    using assms(1,2,3) by (auto simp: dvd_def mult.commute)
  let ?I0 = "r div TILE" and ?i0 = "r mod TILE" and ?J0 = "c div TILE" and ?j0 = "c mod TILE"
  have I0: "?I0 < M" and J0: "?J0 < P"
    using assms(6,7) unfolding m p by (simp_all add: less_mult_imp_div_less)
  have i0: "?i0 < TILE" and j0: "?j0 < TILE"
    by simp_all
  have sz: "M * TILE * (P * TILE) \<le> size_a out"
    using assms(4) unfolding m p .
  have a_idx: "tiled_index (N * TILE) r (K * TILE + k)
                 = ?I0 * TILE * (N * TILE) + K * TILE * TILE + (?i0 * TILE + k)" if "k < TILE" for K k
    using tiled_index_block [OF i0 that, of N ?I0 K] by simp
  have b_idx: "tiled_index (P * TILE) (K * TILE + k) c
                 = K * TILE * (P * TILE) + ?J0 * TILE * TILE + (k * TILE + ?j0)" if "k < TILE" for K k
    using tiled_index_block [OF that j0, of P K ?J0] by simp
  obtain out' where run: "MatmulTiled a b out (M * TILE) (N * TILE) (P * TILE) = Inr out'"
    and sz': "size_a out' = size_a out"
    and cell: "ptr out' (?I0 * TILE * (P * TILE) + ?J0 * TILE * TILE + (?i0 * TILE + ?j0))
          = (\<Sum>K\<leftarrow>[0..<N]. \<Sum>k\<leftarrow>[0..<TILE].
              ptr a (?I0 * TILE * (N * TILE) + K * TILE * TILE + (?i0 * TILE + k))
                * ptr b (K * TILE * (P * TILE) + ?J0 * TILE * TILE + (k * TILE + ?j0)))"
    using MatmulTiled_block_cell [OF I0 J0 i0 j0 sz assms(5), where a = a and b = b and N = N]
    by blast
  have "ptr out' (tiled_index (P * TILE) r c)
          = (\<Sum>K\<leftarrow>[0..<N]. \<Sum>k\<leftarrow>[0..<TILE].
              ptr a (?I0 * TILE * (N * TILE) + K * TILE * TILE + (?i0 * TILE + k))
                * ptr b (K * TILE * (P * TILE) + ?J0 * TILE * TILE + (k * TILE + ?j0)))"
    unfolding tiled_index_split by (rule cell)
  also have "\<dots> = (\<Sum>K\<leftarrow>[0..<N]. \<Sum>k\<leftarrow>[0..<TILE].
              ptr a (tiled_index (N * TILE) r (K * TILE + k))
                * ptr b (tiled_index (P * TILE) (K * TILE + k) c))"
    by (intro arg_cong [where f = sum_list] map_cong refl) (simp add: a_idx b_idx)
  also have "\<dots> = (\<Sum>k<N * TILE. ptr a (tiled_index (N * TILE) r k) * ptr b (tiled_index (P * TILE) k c))"
    by (rule sum_blocks)
  finally show ?thesis
    using run sz' unfolding m n p by blast
qed

lemma tiled_index_untiled:
  assumes "TILE dvd cols" "c < cols"
  shows "untiled_index cols (tiled_index cols r c) = r * cols + c"
proof -
  obtain Q where cols: "cols = Q * TILE"
    using assms(1) by (auto simp: dvd_def mult.commute)
  let ?I = "r div TILE" and ?i = "r mod TILE" and ?J = "c div TILE" and ?j = "c mod TILE"
  let ?x = "((?I * Q + ?J) * TILE + ?i) * TILE + ?j"
  have J: "?J < Q"
    using assms(2) unfolding cols by (simp add: less_mult_imp_div_less)
  have x: "tiled_index cols r c = ?x"
    by (simp add: tiled_index_def cols)
  have x1: "?x mod TILE = ?j" and x2: "?x div TILE = (?I * Q + ?J) * TILE + ?i"
    by simp_all
  have x3: "?x div TILE mod TILE = ?i" and x4: "?x div (TILE * TILE) = ?I * Q + ?J"
    by (simp_all add: div_mult2_eq)
  have x5: "(?I * Q + ?J) div Q = ?I" and x6: "(?I * Q + ?J) mod Q = ?J"
    using J by simp_all
  have "untiled_index cols ?x = (?I * TILE + ?i) * cols + (?J * TILE + ?j)"
    unfolding untiled_index_def x1 x3 x4 using J by (simp add: cols x5 x6)
  also have "\<dots> = r * cols + c"
    by (simp add: mult.commute)
  finally show ?thesis
    unfolding x .
qed

lemma tiling_tiled:
  assumes "TILE dvd cols"
  shows "tiling rows cols a2 (tiled cols a2)"
  using assms by (simp add: tiling_def tiled_def tiled_index_untiled)

lemma MatmulTiled_naive:
  fixes a b out a2 b2 out2 :: "('a::semiring_0) AlignedArray"
  assumes "r < m" "c < p"
    and "tiling m n a2 a" "tiling n p b2 b"
    and "m * n \<le> 2 ^ 32" "n * p \<le> 2 ^ 32" "m * p \<le> 2 ^ 32"
  shows "(\<Sum>k<n. ptr a (tiled_index n r k) * ptr b (tiled_index p k c))
           = ptr (Matmul a2 b2 out2 m n p) (r * p + c)"
proof -
  have "ptr (Matmul a2 b2 out2 m n p) (r * p + c) = (\<Sum>k<n. ptr a2 (r * n + k) * ptr b2 (k * p + c))"
    using assms(5,6,7,1,2) by (simp add: Matmul_cell row_times_column_sum)
  also have "\<dots> = (\<Sum>k<n. ptr a (tiled_index n r k) * ptr b (tiled_index p k c))"
    using assms(1-4) by (intro sum.cong refl) (simp add: tiling_def)
  finally show ?thesis
    by simp
qed

text \<open>
  Claim C3.  The output of the tiled product is zeroed by \<^verbatim>\<open>Fill\<close>, whose counter is an
  \<^verbatim>\<open>int\<close>, and the untiled product indexes in \<^verbatim>\<open>uint32_t\<close> (see the claim C4); the
  sizes \<open>m\<close>, \<open>n\<close>, \<open>p\<close> are \<^verbatim>\<open>uint32_t\<close>, so an output can have more cells than either
  can count.  With \<open>m = p = 46344\<close> (a multiple of the tile width) and \<open>n = 8\<close> the output
  has \<open>2147766336\<close> cells, more than \<^verbatim>\<open>INT_MAX\<close>: the counter of \<^verbatim>\<open>Fill\<close> overflows, and
  \<^verbatim>\<open>MatmulTiled\<close> does not produce the tiling of the product, which at these sizes the
  naive \<^verbatim>\<open>Matmul\<close> still computes, for all its sizes are within \<open>2^32\<close>.  With
  \<open>m = 8\<close>, \<open>n = 0\<close> and \<open>p = 536870920\<close> (multiples of the tile width, too) the two
  do not leave the same product either: the cell \<open>2^32\<close> of the output of \<^verbatim>\<open>Matmul\<close>,
  the cell \<open>(7, 536870856)\<close> of the (zero) product, keeps the value \<open>1\<close> it held before.
\<close>

theorem MatmulTiled_misses_the_product:
  "TILE dvd 46344 \<and> TILE dvd 8 \<and> (46344::nat) * 8 \<le> 2 ^ 32 \<and> (46344::nat) * 46344 \<le> 2 ^ 32
   \<and> INT_MAX < 46344 * 46344
   \<and> MatmulTiled a b (filled v (46344 * 46344)) 46344 8 46344 = Inl signed_overflow
   \<and> TILE dvd 0 \<and> TILE dvd 536870920 \<and> 7 * 536870920 + 536870856 = (2 ^ 32 :: nat)
   \<and> (536870856 :: nat) < 536870920
   \<and> MatmulTiled a b (filled 1 (8 * 536870920)) 8 0 536870920 = Inl signed_overflow
   \<and> ptr (Matmul a b (filled (1::real) (8 * 536870920)) 8 0 536870920) (2 ^ 32) = 1"
proof -
  have "ptr (Matmul a b (filled (1::real) (8 * 536870920)) 8 0 536870920) (2 ^ 32)
          = ptr (filled (1::real) (8 * 536870920)) (2 ^ 32)"
    by (rule Matmul_frame) simp
  then show ?thesis
    by (simp add: MatmulTiled_def Fill_def INT_MAX_def filled_def TILE_def)
qed

text \<open>
  Where the output has at most \<^verbatim>\<open>INT_MAX\<close> cells the tiled product is right.  Over exact
  arithmetic (a semiring), for \<open>m\<close>, \<open>n\<close>, \<open>p\<close> multiples of the tile width and an output
  buffer of at least \<open>m * p\<close> cells, \<^verbatim>\<open>MatmulTiled\<close> returns without error and leaves at
  the tiled place of every \<open>(r, c)\<close> with \<open>r < m\<close> and \<open>c < p\<close> the sum over \<open>k < n\<close> of the
  products of the elements \<open>(r, k)\<close> and \<open>(k, c)\<close> of its tiled operands.  When the
  operands are the tilings of two compact matrices and the sizes are within the 32 bits of
  the index arithmetic of \<^verbatim>\<open>Matmul\<close>, this is the value that \<^verbatim>\<open>Matmul\<close> leaves in the
  cell \<open>r * p + c\<close>.
\<close>

theorem MatmulTiled_tiles_the_product:
  fixes a b out a2 b2 out2 :: "('a::semiring_0) AlignedArray"
  assumes "TILE dvd m" "TILE dvd n" "TILE dvd p" and "m * p \<le> size_a out"
    and "size_a out \<le> INT_MAX" and "r < m" "c < p"
  shows "\<exists>out'. MatmulTiled a b out m n p = Inr out' \<and> size_a out' = size_a out
           \<and> ptr out' (tiled_index p r c)
               = (\<Sum>k<n. ptr a (tiled_index n r k) * ptr b (tiled_index p k c))
           \<and> (tiling m n a2 a \<and> tiling n p b2 b
                \<and> m * n \<le> 2 ^ 32 \<and> n * p \<le> 2 ^ 32 \<and> m * p \<le> 2 ^ 32
              \<longrightarrow> ptr out' (tiled_index p r c) = ptr (Matmul a2 b2 out2 m n p) (r * p + c))"
  using MatmulTiled_cell [OF assms, of a b] MatmulTiled_naive [OF assms(6,7), of n a2 a b2 b out2]
  by auto

theorem MatmulTiled_tiles_the_product_witness:
  "TILE dvd 8 \<and> TILE dvd 16 \<and> (8::nat) * 16 \<le> size_a (filled (5::real) 128)
   \<and> size_a (filled (5::real) 128) \<le> INT_MAX \<and> (3::nat) < 8 \<and> (12::nat) < 16
   \<and> tiling 8 16 (counting 128) (tiled 16 (counting 128 :: real AlignedArray))
   \<and> tiling 16 16 (counting 256) (tiled 16 (counting 256 :: real AlignedArray))
   \<and> tiled_index 16 3 12 = 92
   \<and> (\<exists>out'. MatmulTiled (tiled 16 (counting 128)) (tiled 16 (counting 256)) (filled (5::real) 128) 8 16 16
                 = Inr out'
          \<and> ptr out' 92 = 122656
          \<and> ptr out' 92 = ptr (Matmul (counting 128) (counting 256) (filled (7::real) 128) 8 16 16) (3 * 16 + 12))"
proof -
  have d: "TILE dvd 8" and d': "TILE dvd 16" by (simp_all add: TILE_def)
  have s: "(8::nat) * 16 \<le> size_a (filled (5::real) 128)"
    and s': "size_a (filled (5::real) 128) \<le> INT_MAX"
    by (simp_all add: filled_def INT_MAX_def)
  have r: "(3::nat) < 8" and c: "(12::nat) < 16" by simp_all
  have t1: "tiling 8 16 (counting 128) (tiled 16 (counting 128 :: real AlignedArray))"
    and t2: "tiling 16 16 (counting 256) (tiled 16 (counting 256 :: real AlignedArray))"
    using d' by (rule tiling_tiled)+
  have b: "(8::nat) * 16 \<le> 2 ^ 32" "(16::nat) * 16 \<le> 2 ^ 32" by simp_all
  have x: "tiled_index 16 3 12 = 92"
    by (simp add: tiled_index_def TILE_def)
  have v: "(\<Sum>k<16. ptr (tiled 16 (counting 128 :: real AlignedArray)) (tiled_index 16 3 k)
                   * ptr (tiled 16 (counting 256)) (tiled_index 16 k 12)) = 122656"
    by (simp add: tiled_def tiled_index_untiled [OF d'] counting_def lessThan_nat_numeral
        lessThan_Suc)
  from MatmulTiled_tiles_the_product [OF d d' d' s s' r c, of "tiled 16 (counting 128)"
      "tiled 16 (counting 256)" "counting 128" "counting 256" "filled 7 128"]
  show ?thesis
    unfolding x v using d d' s s' t1 t2 b x by auto
qed

section \<open>Grid sampling: bilinear interpolation into the destination\<close>




lemma static_cast_int32_of_int [simp]: "static_cast_int32 (real_of_int z) = z"
  by (simp add: static_cast_int32_def)






section \<open>Reductions: one output cell per block\<close>

lemma upt_shift: "[c + m..<c + n] = map (\<lambda>j. c + j) [m..<n]"
  by (induction n) (auto simp: not_less_eq_eq)

lemma foldl_shift_upt:
  "foldl (\<lambda>s j. f s (g (c + j))) s0 [m..<n] = foldl f s0 (map g [c + m..<c + n])"
  by (simp add: upt_shift foldl_map)

lemma ptr_ReduceSum:
  "ptr (ReduceSum a out reduce_size) i =
     (if i < size_a out then foldl (+) 0 (block a i reduce_size) else ptr out i)"
  by (simp add: ReduceSum_def ptr_foldl_store_upt block_def foldl_shift_upt [where m = 0, simplified])

lemma size_a_ReduceSum [simp]: "size_a (ReduceSum a out reduce_size) = size_a out"
  by (simp add: ReduceSum_def)

lemma size_a_ReduceMax [simp]: "size_a (ReduceMax a out reduce_size) = size_a out"
  by (simp add: ReduceMax_def)

lemma block_hd_tl:
  assumes "1 \<le> reduce_size"
  shows "hd (block a i reduce_size) = ptr a (i * reduce_size)"
    and "tl (block a i reduce_size) = map (ptr a) [i * reduce_size + 1..<i * reduce_size + reduce_size]"
  using assms by (simp_all add: block_def upt_conv_Cons hd_map map_tl)

lemma ptr_ReduceMax:
  assumes "1 \<le> reduce_size"
  shows "ptr (ReduceMax a out reduce_size) i =
     (if i < size_a out
      then foldl std_max (hd (block a i reduce_size)) (tl (block a i reduce_size))
      else ptr out i)"
  using assms
  by (simp add: ReduceMax_def ptr_foldl_store_upt block_hd_tl foldl_shift_upt [where m = 1, simplified])

lemma std_max_max: "std_max x y = max x (y::'a::linorder)"
  by (auto simp: std_max_def max_def)

lemma foldl_std_max_Max:
  fixes x :: "'a::linorder"
  shows "foldl std_max x xs = Max (set (x # xs))"
proof (induction xs arbitrary: x)
  case Nil
  show ?case by simp
next
  case (Cons y ys)
  have "foldl std_max x (y # ys) = foldl std_max (max x y) ys"
    by (simp add: std_max_max)
  also have "\<dots> = Max (set (max x y # ys))"
    by (rule Cons.IH)
  also have "\<dots> = Max (set (x # y # ys))"
    by (cases "ys = []") (simp_all add: max.assoc)
  finally show ?case .
qed

lemma block_nonempty:
  assumes "1 \<le> reduce_size"
  shows "block a i reduce_size = hd (block a i reduce_size) # tl (block a i reduce_size)"
  using assms by (simp add: block_def upt_conv_Cons)

lemma ptr_ReduceMax_Max:
  fixes a out :: "('a::linorder) AlignedArray"
  assumes "1 \<le> reduce_size" "i < size_a out"
  shows "ptr (ReduceMax a out reduce_size) i = Max (set (block a i reduce_size))"
proof -
  have "ptr (ReduceMax a out reduce_size) i
          = Max (set (hd (block a i reduce_size) # tl (block a i reduce_size)))"
    using assms by (simp only: ptr_ReduceMax foldl_std_max_Max if_True)
  then show ?thesis
    using block_nonempty [OF assms(1), of a i] by simp
qed

text \<open>
  Claim C5.  For a reduce size of at least one, \<^verbatim>\<open>ReduceSum\<close> leaves in cell \<open>i\<close> of the
  output the sum of block \<open>i\<close> of the source, taken left to right from \<open>0\<close>, and
  \<^verbatim>\<open>ReduceMax\<close> leaves there the \<^verbatim>\<open>std::max\<close> of the block taken left to right from
  its first element; neither changes the size of the output.  Where the scalars are
  linearly ordered, that left-to-right maximum is the greatest element of the block: it
  is at least every element of the block and is one of them.  On the source
  \<open>[1, 2, 3, 4, 5, 6]\<close> with reduce size \<open>3\<close> the sums are \<open>[6, 15]\<close> and the maxima
  \<open>[3, 6]\<close>; the maxima of \<open>[3, 1, 2, 4, 6, 5]\<close>, whose blocks have their greatest element
  first and in the middle, are \<open>[3, 6]\<close> as well.
\<close>

theorem reduce_blocks:
  fixes a out :: "('a::{zero,plus,ord}) AlignedArray" and al outl :: "('b::linorder) AlignedArray"
  assumes "i < size_a out" and "1 \<le> reduce_size"
  shows "ptr (ReduceSum a out reduce_size) i = foldl (+) 0 (block a i reduce_size)
    \<and> ptr (ReduceMax a out reduce_size) i =
        foldl std_max (hd (block a i reduce_size)) (tl (block a i reduce_size))
    \<and> (i < size_a outl \<longrightarrow>
         ptr (ReduceMax al outl reduce_size) i = Max (set (block al i reduce_size))
         \<and> (\<forall>j<reduce_size. ptr al (i * reduce_size + j) \<le> ptr (ReduceMax al outl reduce_size) i)
         \<and> (\<exists>j<reduce_size. ptr (ReduceMax al outl reduce_size) i = ptr al (i * reduce_size + j)))
    \<and> size_a (ReduceSum a out reduce_size) = size_a out
    \<and> size_a (ReduceMax a out reduce_size) = size_a out
    \<and> to_list (ReduceSum (from_list 0 [1, 2, 3, 4, 5, 6]) (from_list 0 [0, 0]) 3) = [6, 15 :: real]
    \<and> to_list (ReduceMax (from_list 0 [1, 2, 3, 4, 5, 6]) (from_list 0 [0, 0]) 3) = [3, 6 :: real]
    \<and> to_list (ReduceMax (from_list 0 [3, 1, 2, 4, 6, 5]) (from_list 0 [0, 0]) 3) = [3, 6 :: real]"
proof -
  have ex_sum: "to_list (ReduceSum (from_list 0 [1, 2, 3, 4, 5, 6]) (from_list 0 [0, 0]) 3) = [6, 15 :: real]"
    by (simp add: to_list_def ptr_ReduceSum block_def ptr_from_list upt_rec)
  have ex_max: "to_list (ReduceMax (from_list 0 [1, 2, 3, 4, 5, 6]) (from_list 0 [0, 0]) 3) = [3, 6 :: real]"
    "to_list (ReduceMax (from_list 0 [3, 1, 2, 4, 6, 5]) (from_list 0 [0, 0]) 3) = [3, 6 :: real]"
    by (simp_all add: to_list_def ptr_ReduceMax block_def ptr_from_list upt_rec std_max_def)
  have set_block: "set (block al i reduce_size) = (\<lambda>j. ptr al (i * reduce_size + j)) ` {..<reduce_size}"
    using upt_shift [of "i * reduce_size" 0 reduce_size]
    by (simp add: block_def image_image atLeast0LessThan)
  have ne: "set (block al i reduce_size) \<noteq> {}"
    using assms(2) by (simp add: block_def)
  have mx: "ptr (ReduceMax al outl reduce_size) i = Max (set (block al i reduce_size))" if "i < size_a outl"
    using assms(2) that by (rule ptr_ReduceMax_Max)
  have upper: "\<forall>j<reduce_size. ptr al (i * reduce_size + j) \<le> Max (set (block al i reduce_size))"
    unfolding set_block by (auto intro: Max_ge)
  have "Max (set (block al i reduce_size)) \<in> set (block al i reduce_size)"
    using ne by (intro Max_in) simp
  then have attained: "\<exists>j<reduce_size. Max (set (block al i reduce_size)) = ptr al (i * reduce_size + j)"
    unfolding set_block by auto
  show ?thesis
    using assms ex_sum ex_max mx upper attained by (simp add: ptr_ReduceSum ptr_ReduceMax)
qed

theorem reduce_blocks_witness:
  "(1::nat) < size_a (from_list 0 [0, 0 :: real]) \<and> (1::nat) \<le> 3
   \<and> ptr (ReduceSum (from_list 0 [3, 1, 2, 4, 6, 5]) (from_list 0 [0, 0 :: real]) 3) 1 = 15
   \<and> ptr (ReduceMax (from_list 0 [3, 1, 2, 4, 6, 5]) (from_list 0 [0, 0 :: real]) 3) 1 = 6"
proof -
  have h1: "(1::nat) < size_a (from_list 0 [0, 0 :: real])" by simp
  have h2: "(1::nat) \<le> 3" by simp
  show ?thesis
    using reduce_blocks [OF h1 h2, of "from_list 0 [3, 1, 2, 4, 6, 5]" "from_list 0 [0, 0 :: real]"
        "from_list 0 [3, 1, 2, 4, 6, 5 :: real]"] h1
    by (simp add: block_def ptr_from_list upt_rec)
qed

section \<open>The frame of the elementwise operators\<close>

text \<open>
  Claim C10.  Each of the elementwise, scalar and unary operators writes the cells below
  the size of its first input \<open>a\<close>, every one with the operator applied to the inputs at
  that index, and leaves every cell of the output from \<open>size_a a\<close> on as it was, whatever
  the size of the output.
\<close>

theorem elementwise_operators_write_first_a_size:
  fixes a b out :: "('a::{plus,times,divide,ord,zero,one}) AlignedArray"
  shows "ptr (EwiseAdd a b out) i = (if i < size_a a then ptr a i + ptr b i else ptr out i)
    \<and> ptr (ScalarAdd a val out) i = (if i < size_a a then ptr a i + val else ptr out i)
    \<and> ptr (EwiseMul a b out) i = (if i < size_a a then ptr a i * ptr b i else ptr out i)
    \<and> ptr (ScalarMul a val out) i = (if i < size_a a then ptr a i * val else ptr out i)
    \<and> ptr (EwiseDiv a b out) i = (if i < size_a a then ptr a i div ptr b i else ptr out i)
    \<and> ptr (ScalarDiv a val out) i = (if i < size_a a then ptr a i div val else ptr out i)
    \<and> ptr (ScalarPower std_pow a val out) i = (if i < size_a a then std_pow (ptr a i) val else ptr out i)
    \<and> ptr (EwiseMaximum a b out) i = (if i < size_a a then std_max (ptr a i) (ptr b i) else ptr out i)
    \<and> ptr (ScalarMaximum a val out) i = (if i < size_a a then std_max (ptr a i) val else ptr out i)
    \<and> ptr (EwiseEq a b out) i = (if i < size_a a then equal_to (ptr a i) (ptr b i) else ptr out i)
    \<and> ptr (ScalarEq a val out) i = (if i < size_a a then equal_to (ptr a i) val else ptr out i)
    \<and> ptr (EwiseGe a b out) i = (if i < size_a a then greater_equal (ptr a i) (ptr b i) else ptr out i)
    \<and> ptr (ScalarGe a val out) i = (if i < size_a a then greater_equal (ptr a i) val else ptr out i)
    \<and> ptr (EwiseLog std_log a out) i = (if i < size_a a then std_log (ptr a i) else ptr out i)
    \<and> ptr (EwiseExp std_exp a out) i = (if i < size_a a then std_exp (ptr a i) else ptr out i)
    \<and> ptr (EwiseTanh std_tanh a out) i = (if i < size_a a then std_tanh (ptr a i) else ptr out i)"
  unfolding ewise_defs ptr_ewise by simp



end
